theory Spec2Isabelle
  imports Complex_Main
begin

section \<open>Python values used by the crawlers\<close>

text \<open>
  Exceptions are values. \<open>RequestException\<close> stands for \<open>requests.RequestException\<close> and
  all its subclasses (\<open>HTTPError\<close>, \<open>ConnectionError\<close>, \<open>Timeout\<close>, ...); the argument
  is \<open>str(e)\<close>. \<open>OtherError\<close> is any other subclass of \<open>Exception\<close>.
  \<open>ValueError\<close> is what \<open>time.sleep\<close> raises for a negative length.
\<close>

datatype exn =
    RequestException string
  | OSError string
  | KeyError string
  | ValueError string
  | OtherError string

fun str_exn :: "exn \<Rightarrow> string" where
  "str_exn (RequestException m) = m"
| "str_exn (OSError m) = m"
| "str_exn (KeyError k) = [CHR 0x27] @ k @ [CHR 0x27]"
| "str_exn (ValueError m) = m"
| "str_exn (OtherError m) = m"

text \<open>
  Python's \<open>round(x, ndigits)\<close> on a float: the nearest multiple of \<open>10 ^ -ndigits\<close>,
  an exact tie going to the even neighbour. Floats are modelled by the rationals they
  denote; the quotient \<open>total_bytes / (1024 * 1024)\<close> is exact in binary floating point
  for every byte count below \<open>2 ^ 53\<close>, and the result of \<open>round\<close> is read as the decimal
  it prints as.
\<close>

definition round_half_even :: "rat \<Rightarrow> int" where
  "round_half_even y =
     (let f = \<lfloor>y\<rfloor>; d = y - of_int f
      in if d < 1 / 2 then f
         else if 1 / 2 < d then f + 1
         else if even f then f else f + 1)"

definition py_round :: "rat \<Rightarrow> nat \<Rightarrow> rat" where
  "py_round x ndigits = of_int (round_half_even (x * 10 ^ ndigits)) / 10 ^ ndigits"

section \<open>CrawlerStats (polite\_crawler\_enhanced.py)\<close>

text \<open>An entry of \<open>stats.errors\<close>: the dict \<open>{'url': url, 'error': str(e)}\<close>.\<close>

record error_entry =
  e_url :: string
  e_error :: string

text \<open>
  \<open>start_time\<close> and \<open>end_time\<close> are \<open>None\<close> or a \<open>datetime\<close>, kept as microseconds
  since the epoch (the resolution of \<open>datetime\<close>).
\<close>

record CrawlerStats =
  pages_crawled :: int
  assets_downloaded :: int
  total_bytes :: int
  start_time :: "int option"
  end_time :: "int option"
  errors :: "error_entry list"
  urls_found :: int

definition CrawlerStats_init :: CrawlerStats where
  "CrawlerStats_init =
     \<lparr>pages_crawled = 0, assets_downloaded = 0, total_bytes = 0,
      start_time = None, end_time = None, errors = [], urls_found = 0\<rparr>"

text \<open>The dict returned by \<open>to_dict\<close>, one field per key.\<close>

record stats_dict =
  d_pages_crawled :: int
  d_assets_downloaded :: int
  d_total_bytes :: int
  total_mb :: rat
  duration_seconds :: rat
  d_urls_found :: int
  errors_count :: int
  d_errors :: "error_entry list"

text \<open>
  \<open>(self.end_time - self.start_time).total_seconds()\<close>: a \<open>datetime\<close> is always truthy,
  so the test \<open>self.start_time and self.end_time\<close> asks whether both are set.
\<close>

definition duration_of :: "CrawlerStats \<Rightarrow> rat" where
  "duration_of s =
     (case (start_time s, end_time s) of
        (Some t0, Some t1) \<Rightarrow> of_int (t1 - t0) / 1000000
      | _ \<Rightarrow> 0)"

definition to_dict :: "CrawlerStats \<Rightarrow> stats_dict" where
  "to_dict s =
     \<lparr>d_pages_crawled = pages_crawled s,
      d_assets_downloaded = assets_downloaded s,
      d_total_bytes = total_bytes s,
      total_mb = py_round (of_int (total_bytes s) / (1024 * 1024)) 2,
      duration_seconds = py_round (duration_of s) 2,
      d_urls_found = urls_found s,
      errors_count = int (length (errors s)),
      d_errors = take 10 (errors s)\<rparr>"

section \<open>String and path operations of the standard library\<close>

definition startswith :: "string \<Rightarrow> string \<Rightarrow> bool" where
  "startswith s p = (take (length p) s = p)"

text \<open>\<open>p in s\<close> on strings.\<close>

fun contains :: "string \<Rightarrow> string \<Rightarrow> bool" where
  "contains [] p = (p = [])"
| "contains (c # cs) p = (startswith (c # cs) p \<or> contains cs p)"

text \<open>\<open>s.split(sep)[0]\<close> for a one-character separator.\<close>

definition split_head :: "char \<Rightarrow> string \<Rightarrow> string" where
  "split_head sep s = takeWhile (\<lambda>c. c \<noteq> sep) s"

text \<open>\<open>s.strip(ch)\<close> for a one-character set.\<close>

definition strip_char :: "char \<Rightarrow> string \<Rightarrow> string" where
  "strip_char ch s = rev (dropWhile (\<lambda>c. c = ch) (rev (dropWhile (\<lambda>c. c = ch) s)))"

text \<open>\<open>s.replace(old, new)\<close>, left to right, non-overlapping.\<close>

function replace_nonempty :: "string \<Rightarrow> string \<Rightarrow> string \<Rightarrow> string" where
  "replace_nonempty old new [] = []"
| "replace_nonempty old new (c # cs) =
     (if old \<noteq> [] \<and> startswith (c # cs) old
      then new @ replace_nonempty old new (drop (length old) (c # cs))
      else c # replace_nonempty old new cs)"
  by pat_completeness auto
termination
  by (relation "measure (\<lambda>(old, new, s). length s)") auto

definition replace :: "string \<Rightarrow> string \<Rightarrow> string \<Rightarrow> string" where
  "replace s old new =
     (if old = [] then new @ concat (map (\<lambda>c. c # new) s)
      else replace_nonempty old new s)"

text \<open>\<open>str(i)\<close> for a non-negative integer, as an f-string renders it.\<close>

definition digit_char :: "nat \<Rightarrow> char" where
  "digit_char d = char_of (48 + d)"

fun str_nat :: "nat \<Rightarrow> string" where
  "str_nat n = (if n < 10 then [digit_char n] else str_nat (n div 10) @ [digit_char (n mod 10)])"

declare str_nat.simps [simp del]

text \<open>\<open>os.path.basename\<close> and \<open>os.path.join\<close> (two arguments) of \<open>posixpath\<close>.\<close>

definition os_path_basename :: "string \<Rightarrow> string" where
  "os_path_basename p = rev (takeWhile (\<lambda>c. c \<noteq> CHR ''/'') (rev p))"

definition os_path_join :: "string \<Rightarrow> string \<Rightarrow> string" where
  "os_path_join a b =
     (if startswith b ''/'' then b
      else if a = [] \<or> last a = CHR ''/'' then a @ b
      else a @ ''/'' @ b)"

text \<open>
  \<open>str.lower\<close> on ASCII, and membership in the case-insensitive header dictionary of a
  response (\<open>requests.structures.CaseInsensitiveDict\<close>).
\<close>

definition lower_char :: "char \<Rightarrow> char" where
  "lower_char c =
     (if 65 \<le> (of_char c :: nat) \<and> (of_char c :: nat) \<le> 90
      then char_of ((of_char c :: nat) + 32) else c)"

definition lower :: "string \<Rightarrow> string" where
  "lower s = map lower_char s"

definition header_in :: "string \<Rightarrow> (string \<times> string) list \<Rightarrow> bool" where
  "header_in name hdrs = (lower name \<in> set (map (\<lambda>kv. lower (fst kv)) hdrs))"

section \<open>The outside world\<close>

text \<open>
  A response of \<open>requests\<close>. \<open>chunks\<close> is what \<open>iter_content(1024)\<close> yields and
  \<open>iter_error\<close> the exception it raises after the last chunk, if any.
\<close>

record Response =
  status_code :: int
  reason :: string
  r_url :: string
  headers :: "(string \<times> string) list"
  body_text :: string
  chunks :: "string list"
  iter_error :: "exn option"

text \<open>
  \<open>Response.raise_for_status\<close>: an \<open>HTTPError\<close> (a \<open>RequestException\<close>) for a status in
  400..599, nothing for any other status. \<open>Response.__bool__\<close> is \<open>Response.ok\<close>, true
  when \<open>raise_for_status\<close> does not raise.
\<close>

definition http_error_msg :: "Response \<Rightarrow> string \<Rightarrow> string" where
  "http_error_msg r kind =
     str_nat (nat (status_code r)) @ '' '' @ kind @ '' Error: '' @ reason r
       @ '' for url: '' @ r_url r"

definition raise_for_status :: "Response \<Rightarrow> exn + unit" where
  "raise_for_status r =
     (if 400 \<le> status_code r \<and> status_code r < 500
        then Inl (RequestException (http_error_msg r ''Client''))
      else if 500 \<le> status_code r \<and> status_code r < 600
        then Inl (RequestException (http_error_msg r ''Server''))
      else Inr ())"

definition response_ok :: "Response \<Rightarrow> bool" where
  "response_ok r = (case raise_for_status r of Inl e \<Rightarrow> False | Inr u \<Rightarrow> True)"

text \<open>The parts of a parsed document (\<open>BeautifulSoup\<close>) that the crawlers read.\<close>

record img_tag =
  src :: "string option"
  data_src :: "string option"

record soup =
  title :: "string option option"
  prettify :: string
  imgs :: "img_tag list"
  stylesheet_hrefs :: "string option list"
  script_srcs :: "string option list"
  svgs :: "string list"
  anchor_hrefs :: "string list"

text \<open>
  What \<open>RobotFileParser.read\<close> meets: an \<open>HTTPError\<close> with its status (handled inside
  \<open>read\<close>), any other exception of \<open>urlopen\<close> or of decoding the body (a \<open>URLError\<close>
  for an unreachable host, a \<open>UnicodeDecodeError\<close>), or a body that \<open>parse\<close> turns into
  rules; the rules are kept as the answer they give to \<open>can_fetch\<close> for each URL.
\<close>

datatype robots_outcome =
    Robots_http_error int
  | Robots_raises exn
  | Robots_parsed "string \<Rightarrow> exn + bool"

text \<open>Input and output the crawler performs, in order.\<close>

datatype event =
    Get string bool nat
  | Sleep rat
  | Makedirs string
  | Write string
  | Print

text \<open>
  The world is a record of oracles. Those that can change while the crawler runs are
  indexed by the number of events so far. \<open>urljoin\<close> and \<open>urlparse\<close> are those of
  \<open>urllib.parse\<close>; they raise \<open>ValueError\<close> on some malformed input.
  \<open>extract_all_error\<close> is the exception, if any, that \<open>DataExtractor.extract_all\<close>
  raises on a page text and its URL.
\<close>

record world =
  urljoin :: "string \<Rightarrow> string \<Rightarrow> exn + string"
  url_scheme :: "string \<Rightarrow> exn + string"
  url_netloc :: "string \<Rightarrow> exn + string"
  url_path :: "string \<Rightarrow> exn + string"
  http_get :: "nat \<Rightarrow> string \<Rightarrow> exn + Response"
  BeautifulSoup :: "string \<Rightarrow> exn + soup"
  extract_all_error :: "string \<Rightarrow> string \<Rightarrow> exn option"
  robots_read :: robots_outcome
  open_error :: "nat \<Rightarrow> string \<Rightarrow> exn option"
  makedirs_error :: "nat \<Rightarrow> string \<Rightarrow> exn option"
  now :: "nat \<Rightarrow> int"

section \<open>PoliteCrawler (polite\_crawler\_enhanced.py)\<close>

definition MAX_RETRIES :: nat where
  "MAX_RETRIES = 3"

definition TIMEOUT :: nat where
  "TIMEOUT = 10"

text \<open>
  \<open>urllib.robotparser.RobotFileParser\<close> (standard library), the fields that \<open>read\<close> and
  \<open>can_fetch\<close> use. \<open>last_checked\<close> is a time, zero until \<open>parse\<close> has run; only its
  truth value is read. \<open>entries\<close> is the answer of the parsed rules.
\<close>

record RobotFileParser =
  disallow_all :: bool
  allow_all :: bool
  last_checked :: bool
  entries :: "string \<Rightarrow> exn + bool"

definition RobotFileParser_init :: RobotFileParser where
  "RobotFileParser_init =
     \<lparr>disallow_all = False, allow_all = False, last_checked = False,
      entries = (\<lambda>url. Inr True)\<rparr>"

text \<open>
  \<open>RobotFileParser.read\<close>: an \<open>HTTPError\<close> is caught inside (401 and 403 set
  \<open>disallow_all\<close>, any other 4xx sets \<open>allow_all\<close>, other statuses set nothing); any
  other exception leaves the parser as it was and propagates; a body is parsed, which
  stamps \<open>last_checked\<close>.
\<close>

definition rfp_read :: "robots_outcome \<Rightarrow> RobotFileParser \<Rightarrow> (exn + unit) \<times> RobotFileParser" where
  "rfp_read outcome p =
     (case outcome of
        Robots_http_error code \<Rightarrow>
          (if code = 401 \<or> code = 403 then (Inr (), p\<lparr>disallow_all := True\<rparr>)
           else if 400 \<le> code \<and> code < 500 then (Inr (), p\<lparr>allow_all := True\<rparr>)
           else (Inr (), p))
      | Robots_raises e \<Rightarrow> (Inl e, p)
      | Robots_parsed rules \<Rightarrow> (Inr (), p\<lparr>last_checked := True, entries := rules\<rparr>))"

definition rfp_can_fetch :: "RobotFileParser \<Rightarrow> string \<Rightarrow> exn + bool" where
  "rfp_can_fetch p url =
     (if disallow_all p then Inr False
      else if allow_all p then Inr True
      else if \<not> last_checked p then Inr False
      else entries p url)"

text \<open>One record of \<open>results['pages']\<close> and the \<open>results\<close> dict.\<close>

record page_data =
  pd_url :: string
  pd_filename :: string
  pd_title :: "string option"
  pd_images :: "string list"
  pd_css :: "string list"
  pd_js :: "string list"
  pd_svgs :: "string list"

record metadata =
  md_start_url :: string
  md_domain :: string
  md_crawl_date :: int
  md_stats :: stats_dict

record results =
  res_metadata :: "metadata option"
  res_pages :: "page_data list"
  res_images :: "string list"
  res_svgs :: "string list"
  res_data_files :: "string list"

text \<open>The dict handed to \<open>progress_callback\<close>.\<close>

record progress =
  p_pages_crawled :: int
  p_max_pages :: int
  p_current_url :: string
  p_assets_downloaded :: int
  p_queue_size :: int

text \<open>
  The crawler object, followed by the part of the world it changes: the paths for
  which \<open>os.path.exists\<close> holds, the events so far, and the snapshots the progress
  callback has received.
\<close>

record PoliteCrawler =
  start_url :: string
  max_pages :: int
  delay :: rat
  domain :: string
  base_url :: string
  visited_urls :: "string set"
  url_queue :: "string list"
  stats :: CrawlerStats
  results :: results
  folders :: "(string \<times> string) list"
  robots_parser :: RobotFileParser
  files :: "string set"
  trace :: "event list"
  progress_log :: "progress list"

text \<open>\<open>__init__\<close>; \<open>fs\<close> is the file system the crawler starts on.\<close>

definition PoliteCrawler_init ::
  "world \<Rightarrow> string set \<Rightarrow> string \<Rightarrow> int \<Rightarrow> rat \<Rightarrow> exn + PoliteCrawler" where
  "PoliteCrawler_init w fs url limit d =
     (case (url_scheme w url, url_netloc w url) of
        (Inl e, _) \<Rightarrow> Inl e
      | (Inr sch, Inl e) \<Rightarrow> Inl e
      | (Inr sch, Inr loc) \<Rightarrow>
          Inr \<lparr>start_url = url, max_pages = limit, delay = d, domain = loc,
               base_url = sch @ ''://'' @ loc,
               visited_urls = {}, url_queue = [], stats = CrawlerStats_init,
               results = \<lparr>res_metadata = None, res_pages = [], res_images = [],
                           res_svgs = [], res_data_files = []\<rparr>,
               folders = [], robots_parser = RobotFileParser_init,
               files = fs, trace = [], progress_log = []\<rparr>)"

definition log_event :: "event \<Rightarrow> 'a PoliteCrawler_scheme \<Rightarrow> 'a PoliteCrawler_scheme" where
  "log_event ev c = c\<lparr>trace := trace c @ [ev]\<rparr>"

text \<open>
  \<open>time.sleep(secs)\<close>: a negative length raises \<open>ValueError\<close> before any waiting.
\<close>

definition sleep ::
  "rat \<Rightarrow> 'a PoliteCrawler_scheme \<Rightarrow> (exn + unit) \<times> 'a PoliteCrawler_scheme" where
  "sleep secs c =
     (if secs < 0 then (Inl (ValueError ''sleep length must be non-negative''), c)
      else (Inr (), log_event (Sleep secs) c))"

text \<open>\<open>self.stats.errors.append({'url': url, 'error': str(e)})\<close>\<close>

definition record_error ::
  "string \<Rightarrow> exn \<Rightarrow> 'a PoliteCrawler_scheme \<Rightarrow> 'a PoliteCrawler_scheme" where
  "record_error url e c =
     c\<lparr>stats := (stats c)\<lparr>errors := errors (stats c) @ [\<lparr>e_url = url, e_error = str_exn e\<rparr>]\<rparr>\<rparr>"

text \<open>\<open>self.folders[key]\<close>\<close>

definition folder ::
  "string \<Rightarrow> 'a PoliteCrawler_scheme \<Rightarrow> exn + string" where
  "folder key c = (case map_of (folders c) key of None \<Rightarrow> Inl (KeyError key) | Some f \<Rightarrow> Inr f)"

text \<open>\<open>os.makedirs(f, exist_ok=True)\<close> and \<open>open(path, "w")\<close> with the write that follows.\<close>

definition makedirs ::
  "world \<Rightarrow> string \<Rightarrow> 'a PoliteCrawler_scheme \<Rightarrow> (exn + unit) \<times> 'a PoliteCrawler_scheme" where
  "makedirs w f c =
     (case makedirs_error w (length (trace c)) f of
        Some e \<Rightarrow> (Inl e, log_event (Makedirs f) c)
      | None \<Rightarrow> (Inr (), log_event (Makedirs f) (c\<lparr>files := insert f (files c)\<rparr>)))"

definition write_file ::
  "world \<Rightarrow> string \<Rightarrow> 'a PoliteCrawler_scheme \<Rightarrow> (exn + unit) \<times> 'a PoliteCrawler_scheme" where
  "write_file w path c =
     (case open_error w (length (trace c)) path of
        Some e \<Rightarrow> (Inl e, log_event (Write path) c)
      | None \<Rightarrow> (Inr (), log_event (Write path) (c\<lparr>files := insert path (files c)\<rparr>)))"

fun makedirs_all ::
  "world \<Rightarrow> string list \<Rightarrow> 'a PoliteCrawler_scheme \<Rightarrow> (exn + unit) \<times> 'a PoliteCrawler_scheme" where
  "makedirs_all w [] c = (Inr (), c)"
| "makedirs_all w (f # fs) c =
     (case makedirs w f c of
        (Inl e, c1) \<Rightarrow> (Inl e, c1)
      | (Inr u, c1) \<Rightarrow> makedirs_all w fs c1)"

definition setup_folders ::
  "world \<Rightarrow> 'a PoliteCrawler_scheme \<Rightarrow> (exn + unit) \<times> 'a PoliteCrawler_scheme" where
  "setup_folders w c =
     (let c1 = c\<lparr>folders :=
                 [(''root'', domain c),
                  (''html'', os_path_join (domain c) ''pages''),
                  (''images'', os_path_join (os_path_join (domain c) ''assets'') ''images''),
                  (''svgs'', os_path_join (os_path_join (domain c) ''assets'') ''svgs''),
                  (''data'', os_path_join (domain c) ''data'')]\<rparr>
      in makedirs_all w (map snd (folders c1)) c1)"

text \<open>
  \<open>check_robots_txt\<close>: \<open>urljoin\<close> is outside the \<open>try\<close>; whatever \<open>read\<close> raises is
  logged and dropped, and the parser keeps the state \<open>read\<close> left it in.
\<close>

definition check_robots_txt ::
  "world \<Rightarrow> 'a PoliteCrawler_scheme \<Rightarrow> (exn + unit) \<times> 'a PoliteCrawler_scheme" where
  "check_robots_txt w c =
     (case urljoin w (base_url c) ''/robots.txt'' of
        Inl e \<Rightarrow> (Inl e, c)
      | Inr robots_url \<Rightarrow>
          (case rfp_read (robots_read w) (robots_parser c) of
             (Inr u, p) \<Rightarrow> (Inr (), c\<lparr>robots_parser := p\<rparr>)
           | (Inl e, p) \<Rightarrow> (Inr (), c\<lparr>robots_parser := p\<rparr>)))"

text \<open>\<open>can_fetch\<close>: the parser's answer, or \<open>True\<close> when the parser raises.\<close>

definition can_fetch :: "'a PoliteCrawler_scheme \<Rightarrow> string \<Rightarrow> bool" where
  "can_fetch c url =
     (case rfp_can_fetch (robots_parser c) url of
        Inr b \<Rightarrow> b
      | Inl e \<Rightarrow> True)"

text \<open>\<open>self.session.get(url, stream=stream, timeout=timeout)\<close>\<close>

definition session_get ::
  "world \<Rightarrow> string \<Rightarrow> bool \<Rightarrow> nat \<Rightarrow> 'a PoliteCrawler_scheme
     \<Rightarrow> (exn + Response) \<times> 'a PoliteCrawler_scheme" where
  "session_get w url stream timeout c =
     (http_get w (length (trace c)) url, log_event (Get url stream timeout) c)"

text \<open>
  \<open>download_with_retry\<close>: the body of the \<open>for attempt in range(MAX_RETRIES)\<close> loop.
  Only a \<open>requests.RequestException\<close> is caught; any other exception leaves the
  function. A loop that ends without returning gives \<open>None\<close>.
\<close>

function download_attempts ::
  "world \<Rightarrow> string \<Rightarrow> bool \<Rightarrow> nat \<Rightarrow> 'a PoliteCrawler_scheme
     \<Rightarrow> (exn + Response option) \<times> 'a PoliteCrawler_scheme" where
  "download_attempts w url stream attempt c =
     (if attempt < MAX_RETRIES then
        (case session_get w url stream TIMEOUT c of
           (Inr response, c1) \<Rightarrow>
             (case raise_for_status response of
                Inr u \<Rightarrow> (Inr (Some response), c1)
              | Inl (RequestException m) \<Rightarrow>
                  (if attempt = MAX_RETRIES - 1
                   then (Inr None, record_error url (RequestException m) c1)
                   else download_attempts w url stream (attempt + 1) (log_event (Sleep 1) c1))
              | Inl e \<Rightarrow> (Inl e, c1))
         | (Inl (RequestException m), c1) \<Rightarrow>
             (if attempt = MAX_RETRIES - 1
              then (Inr None, record_error url (RequestException m) c1)
              else download_attempts w url stream (attempt + 1) (log_event (Sleep 1) c1))
         | (Inl e, c1) \<Rightarrow> (Inl e, c1))
      else (Inr None, c))"
  by pat_completeness auto
termination
  by (relation "measure (\<lambda>(w, url, stream, attempt, c). MAX_RETRIES - attempt)") auto

declare download_attempts.simps [simp del]

definition download_with_retry ::
  "world \<Rightarrow> string \<Rightarrow> bool \<Rightarrow> 'a PoliteCrawler_scheme
     \<Rightarrow> (exn + Response option) \<times> 'a PoliteCrawler_scheme" where
  "download_with_retry w url stream c = download_attempts w url stream 0 c"

text \<open>
  \<open>download_asset\<close>: the whole body is inside \<open>try ... except Exception\<close>, so every
  exception becomes an error record and the result \<open>None\<close>.
\<close>

definition download_asset ::
  "world \<Rightarrow> string \<Rightarrow> string \<Rightarrow> string \<Rightarrow> 'a PoliteCrawler_scheme
     \<Rightarrow> string option \<times> 'a PoliteCrawler_scheme" where
  "download_asset w url fld asset_type c =
     (case url_path w url of
        Inl e \<Rightarrow> (None, record_error url e c)
      | Inr path \<Rightarrow>
          (let filename = os_path_basename path in
           if filename = [] then (None, c)
           else
             (let filename = split_head CHR ''?'' filename;
                  filepath = os_path_join fld filename in
              if filepath \<in> files c then (Some filename, c)
              else
                (case download_with_retry w url True c of
                   (Inl e, c1) \<Rightarrow> (None, record_error url e c1)
                 | (Inr None, c1) \<Rightarrow> (None, c1)
                 | (Inr (Some response), c1) \<Rightarrow>
                     (if \<not> response_ok response then (None, c1)
                      else
                        (case write_file w filepath c1 of
                           (Inl e, c2) \<Rightarrow> (None, record_error url e c2)
                         | (Inr u, c2) \<Rightarrow>
                             (case iter_error response of
                                Some e \<Rightarrow> (None, record_error url e c2)
                              | None \<Rightarrow>
                                  (let file_size = int (sum_list (map length (chunks response)))
                                   in (Some filename,
                                       c2\<lparr>stats := (stats c2)
                                            \<lparr>assets_downloaded := assets_downloaded (stats c2) + 1,
                                             total_bytes := total_bytes (stats c2) + file_size\<rparr>\<rparr>)))))))))"

text \<open>\<open>a or b\<close> on optional strings: the first truthy one, else the second.\<close>

definition or_else :: "string option \<Rightarrow> string option \<Rightarrow> string option" where
  "or_else a b = (case a of Some s \<Rightarrow> (if s \<noteq> [] then Some s else b) | None \<Rightarrow> b)"

definition truthy :: "string option \<Rightarrow> bool" where
  "truthy a = (case a of Some s \<Rightarrow> s \<noteq> [] | None \<Rightarrow> False)"

text \<open>The loop over \<open>soup.find_all("img")\<close> in \<open>process_page\<close>.\<close>

fun extract_images ::
  "world \<Rightarrow> string \<Rightarrow> img_tag list \<Rightarrow> page_data \<Rightarrow> 'a PoliteCrawler_scheme
     \<Rightarrow> (exn + page_data) \<times> 'a PoliteCrawler_scheme" where
  "extract_images w url [] pd c = (Inr pd, c)"
| "extract_images w url (img # rest) pd c =
     (let s = or_else (src img) (data_src img) in
      if truthy s \<and> \<not> startswith (the s) ''data:'' then
        (case urljoin w url (the s) of
           Inl e \<Rightarrow> (Inl e, c)
         | Inr full_url \<Rightarrow>
             (case folder ''images'' c of
                Inl e \<Rightarrow> (Inl e, c)
              | Inr fld \<Rightarrow>
                  (case download_asset w full_url fld ''image'' c of
                     (filename, c1) \<Rightarrow>
                       (if truthy filename then
                          extract_images w url rest
                            (pd\<lparr>pd_images := pd_images pd @ [full_url]\<rparr>)
                            (c1\<lparr>results := (results c1)
                                  \<lparr>res_images := res_images (results c1) @ [full_url]\<rparr>\<rparr>)
                        else extract_images w url rest pd c1))))
      else extract_images w url rest pd c)"

text \<open>
  The loops over the stylesheets and the scripts: the download is commented out, what
  is left is \<open>urljoin(url, href)\<close> for every truthy \<open>href\<close>, which can raise.
\<close>

fun join_each :: "world \<Rightarrow> string \<Rightarrow> string option list \<Rightarrow> exn option" where
  "join_each w url [] = None"
| "join_each w url (h # rest) =
     (if truthy h then
        (case urljoin w url (the h) of
           Inl e \<Rightarrow> Some e
         | Inr full_url \<Rightarrow> join_each w url rest)
      else join_each w url rest)"

text \<open>
  The loop over \<open>enumerate(soup.find_all("svg"))\<close>. It reads \<open>self.folders["svg"]\<close>,
  a key that \<open>setup_folders\<close> does not set (it sets \<open>'svgs'\<close>).
\<close>

fun extract_svgs ::
  "world \<Rightarrow> string \<Rightarrow> nat \<Rightarrow> string list \<Rightarrow> page_data \<Rightarrow> 'a PoliteCrawler_scheme
     \<Rightarrow> (exn + page_data) \<times> 'a PoliteCrawler_scheme" where
  "extract_svgs w page_name i [] pd c = (Inr pd, c)"
| "extract_svgs w page_name i (svg # rest) pd c =
     (let fname = replace page_name ''.html'' [] @ ''_icon'' @ str_nat i @ ''.svg'' in
      case folder ''svg'' c of
        Inl e \<Rightarrow> (Inl e, c)
      | Inr fld \<Rightarrow>
          (case write_file w (os_path_join fld fname) c of
             (Inl e, c1) \<Rightarrow> (Inl e, c1)
           | (Inr u, c1) \<Rightarrow>
               extract_svgs w page_name (i + 1) rest
                 (pd\<lparr>pd_svgs := pd_svgs pd @ [fname]\<rparr>)
                 (c1\<lparr>results := (results c1)
                       \<lparr>res_svgs := res_svgs (results c1) @ [fname]\<rparr>\<rparr>)))"

text \<open>The loop over \<open>soup.find_all("a", href=True)\<close>.\<close>

fun find_internal_links ::
  "world \<Rightarrow> string \<Rightarrow> string list \<Rightarrow> string list \<Rightarrow> 'a PoliteCrawler_scheme
     \<Rightarrow> (exn + string list) \<times> 'a PoliteCrawler_scheme" where
  "find_internal_links w url [] internal_links c = (Inr internal_links, c)"
| "find_internal_links w url (href # rest) internal_links c =
     (case urljoin w url href of
        Inl e \<Rightarrow> (Inl e, c)
      | Inr full_url \<Rightarrow>
          (case url_netloc w full_url of
             Inl e \<Rightarrow> (Inl e, c)
           | Inr loc \<Rightarrow>
               (if loc = domain c \<and> \<not> contains href ''mailto:'' then
                  (let clean_url = split_head CHR ''#'' full_url in
                   if clean_url \<notin> visited_urls c then
                     find_internal_links w url rest (internal_links @ [clean_url])
                       (c\<lparr>stats := (stats c)\<lparr>urls_found := urls_found (stats c) + 1\<rparr>\<rparr>)
                   else find_internal_links w url rest internal_links c)
                else find_internal_links w url rest internal_links c)))"

text \<open>
  \<open>process_page\<close>. The \<open>try\<close> block covers the download and the parse only; what follows
  it (saving the page, the assets, the links) is not inside any handler.
\<close>

definition process_page ::
  "world \<Rightarrow> string \<Rightarrow> 'a PoliteCrawler_scheme
     \<Rightarrow> (exn + string list) \<times> 'a PoliteCrawler_scheme" where
  "process_page w url c =
     (if \<not> can_fetch c url then (Inr [], c)
      else
        (case download_with_retry w url False c of
           (Inl e, c1) \<Rightarrow> (Inr [], record_error url e c1)
         | (Inr None, c1) \<Rightarrow> (Inr [], c1)
         | (Inr (Some response), c1) \<Rightarrow>
             (if \<not> response_ok response then (Inr [], c1)
              else
                (case BeautifulSoup w (body_text response) of
                   Inl e \<Rightarrow> (Inr [], record_error url e c1)
                 | Inr sp \<Rightarrow>
                     (case url_path w url of
                        Inl e \<Rightarrow> (Inl e, c1)
                      | Inr path \<Rightarrow>
                          (let stripped = strip_char CHR ''/'' path;
                               page_name = replace (if stripped = [] then ''index'' else stripped)
                                             ''/'' ''_'' @ ''.html''
                           in case folder ''html'' c1 of
                                Inl e \<Rightarrow> (Inl e, c1)
                              | Inr html \<Rightarrow>
                          (case write_file w (os_path_join html page_name) c1 of
                             (Inl e, c2) \<Rightarrow> (Inl e, c2)
                           | (Inr u, c2) \<Rightarrow>
                          (case extract_images w url (imgs sp)
                                  \<lparr>pd_url = url, pd_filename = page_name,
                                   pd_title = (case title sp of None \<Rightarrow> Some [] | Some t \<Rightarrow> t),
                                   pd_images = [], pd_css = [], pd_js = [], pd_svgs = []\<rparr> c2 of
                             (Inl e, c3) \<Rightarrow> (Inl e, c3)
                           | (Inr pd1, c3) \<Rightarrow>
                          (case join_each w url (stylesheet_hrefs sp) of
                             Some e \<Rightarrow> (Inl e, c3)
                           | None \<Rightarrow>
                          (case join_each w url (script_srcs sp) of
                             Some e \<Rightarrow> (Inl e, c3)
                           | None \<Rightarrow>
                          (case extract_svgs w page_name 0 (svgs sp) pd1 c3 of
                             (Inl e, c4) \<Rightarrow> (Inl e, c4)
                           | (Inr pd2, c4) \<Rightarrow>
                               find_internal_links w url (anchor_hrefs sp) []
                                 (c4\<lparr>results := (results c4)
                                       \<lparr>res_pages := res_pages (results c4) @ [pd2]\<rparr>\<rparr>))))))))))))"

section \<open>What page processing leaves alone\<close>

text \<open>
  Processing a page never touches the frontier, the page counter, the configuration,
  the folders, the robots parser or the progress log; the crawl loop alone does.
\<close>

definition same_engine :: "'a PoliteCrawler_scheme \<Rightarrow> 'a PoliteCrawler_scheme \<Rightarrow> bool" where
  "same_engine c c' \<longleftrightarrow>
     start_url c' = start_url c \<and> max_pages c' = max_pages c \<and> delay c' = delay c
     \<and> domain c' = domain c \<and> base_url c' = base_url c
     \<and> visited_urls c' = visited_urls c \<and> url_queue c' = url_queue c
     \<and> pages_crawled (stats c') = pages_crawled (stats c)
     \<and> folders c' = folders c \<and> robots_parser c' = robots_parser c
     \<and> progress_log c' = progress_log c"

lemma same_engine_refl [simp]: "same_engine c c"
  by (simp add: same_engine_def)

lemma same_engine_trans: "same_engine a b \<Longrightarrow> same_engine b c \<Longrightarrow> same_engine a c"
  by (simp add: same_engine_def)

lemma same_engine_log_event [simp]: "same_engine c (log_event ev c)"
  by (simp add: same_engine_def log_event_def)

lemma same_engine_record_error [simp]: "same_engine c (record_error url e c)"
  by (simp add: same_engine_def record_error_def)

lemma same_engine_write_file: "same_engine c (snd (write_file w path c))"
  by (simp add: same_engine_def write_file_def log_event_def split: option.splits)

lemma same_engine_session_get: "same_engine c (snd (session_get w url stream t c))"
  by (simp add: session_get_def)

lemma same_engine_download_attempts:
  "same_engine c (snd (download_attempts w url stream attempt c))"
proof (induction w url stream attempt c rule: download_attempts.induct)
  case (1 w url stream attempt c)
  then show ?case
    by (subst download_attempts.simps)
       (auto simp: same_engine_def session_get_def log_event_def record_error_def
             split: prod.splits sum.splits exn.splits)
qed

lemma same_engine_download_with_retry:
  "same_engine c (snd (download_with_retry w url stream c))"
  by (simp add: download_with_retry_def same_engine_download_attempts)


lemma download_with_retry_engine:
  "download_with_retry w url stream c = (r, c') \<Longrightarrow> same_engine c c'"
  using same_engine_download_with_retry [of c w url stream] by simp

lemma write_file_engine: "write_file w path c = (r, c') \<Longrightarrow> same_engine c c'"
  using same_engine_write_file [of c w path] by simp

lemma download_asset_engine:
  "download_asset w url fld asset_type c = (r, c') \<Longrightarrow> same_engine c c'"
  unfolding download_asset_def Let_def
  by (auto simp: same_engine_def record_error_def
           split: sum.splits if_splits prod.splits option.splits
           dest!: download_with_retry_engine write_file_engine)

lemma extract_images_engine:
  "extract_images w url xs pd c = (r, c') \<Longrightarrow> same_engine c c'"
proof (induction xs arbitrary: pd c)
  case Nil
  then show ?case by simp
next
  case (Cons img rest)
  then show ?case
    by (auto simp: Let_def same_engine_def
             split: sum.splits if_splits prod.splits
             dest!: download_asset_engine)
qed

lemma extract_svgs_engine:
  "extract_svgs w page_name i xs pd c = (r, c') \<Longrightarrow> same_engine c c'"
proof (induction xs arbitrary: i pd c)
  case Nil
  then show ?case by simp
next
  case (Cons svg rest)
  then show ?case
    by (auto simp: Let_def same_engine_def folder_def
             split: sum.splits if_splits prod.splits option.splits
             dest!: write_file_engine)
qed

lemma find_internal_links_engine:
  "find_internal_links w url hrefs acc c = (r, c') \<Longrightarrow> same_engine c c'"
proof (induction hrefs arbitrary: acc c)
  case Nil
  then show ?case by simp
next
  case (Cons href rest)
  then show ?case
    by (auto simp: Let_def same_engine_def
             split: sum.splits if_splits prod.splits)
qed

lemma process_page_engine:
  "process_page w url c = (r, c') \<Longrightarrow> same_engine c c'"
  unfolding process_page_def Let_def
  by (auto simp: same_engine_def record_error_def
           split: sum.splits if_splits prod.splits option.splits
           dest!: download_with_retry_engine write_file_engine extract_images_engine
                  extract_svgs_engine find_internal_links_engine)


section \<open>The crawl loop\<close>

text \<open>The loop \<open>for link in found_links\<close> that ends an iteration of the crawl.\<close>

fun enqueue_links :: "string list \<Rightarrow> 'a PoliteCrawler_scheme \<Rightarrow> 'a PoliteCrawler_scheme" where
  "enqueue_links [] c = c"
| "enqueue_links (link # rest) c =
     (if link \<notin> visited_urls c
      then enqueue_links rest
             (c\<lparr>visited_urls := insert link (visited_urls c), url_queue := url_queue c @ [link]\<rparr>)
      else enqueue_links rest c)"

text \<open>The snapshot built for \<open>self.progress_callback\<close>, which is recorded.\<close>

definition report_progress ::
  "string \<Rightarrow> 'a PoliteCrawler_scheme \<Rightarrow> 'a PoliteCrawler_scheme" where
  "report_progress current_url c =
     c\<lparr>progress_log := progress_log c @
         [\<lparr>p_pages_crawled = pages_crawled (stats c), p_max_pages = max_pages c,
           p_current_url = current_url, p_assets_downloaded = assets_downloaded (stats c),
           p_queue_size = int (length (url_queue c))\<rparr>]\<rparr>"

lemma enqueue_links_budget [simp]:
  "max_pages (enqueue_links links c) = max_pages c"
  "stats (enqueue_links links c) = stats c"
  by (induction links arbitrary: c) auto

lemma process_page_budget:
  assumes "process_page w url c = (r, c')"
  shows "max_pages c' = max_pages c" "pages_crawled (stats c') = pages_crawled (stats c)"
  using process_page_engine [OF assms] by (simp_all add: same_engine_def)

lemma sleep_budget:
  assumes "sleep secs c = (r, c')"
  shows "max_pages c' = max_pages c" "stats c' = stats c"
  using assms by (auto simp: sleep_def log_event_def split: if_splits)

text \<open>
  The \<open>while\<close> loop of \<open>crawl\<close>. From the second page on it sleeps first, and
  \<open>time.sleep\<close> raises for a negative delay. The queue is non-empty when \<open>popleft\<close>
  runs. An exception of \<open>time.sleep\<close> or of \<open>process_page\<close> is not caught: it ends the
  loop and \<open>crawl\<close>.
\<close>

function crawl_loop ::
  "world \<Rightarrow> 'a PoliteCrawler_scheme \<Rightarrow> (exn + unit) \<times> 'a PoliteCrawler_scheme" where
  "crawl_loop w c =
     (if url_queue c \<noteq> [] \<and> pages_crawled (stats c) < max_pages c then
        (case (if pages_crawled (stats c) > 0 then sleep (delay c) c else (Inr (), c)) of
           (Inl e, c1) \<Rightarrow> (Inl e, c1)
         | (Inr u, c1) \<Rightarrow>
             (let current_url = hd (url_queue c1)
              in case process_page w current_url (c1\<lparr>url_queue := tl (url_queue c1)\<rparr>) of
                   (Inl e, c2) \<Rightarrow> (Inl e, c2)
                 | (Inr found_links, c2) \<Rightarrow>
                     crawl_loop w
                       (enqueue_links found_links
                          (report_progress current_url
                             (c2\<lparr>stats := (stats c2)
                                   \<lparr>pages_crawled := pages_crawled (stats c2) + 1\<rparr>\<rparr>)))))
      else (Inr (), c))"
  by pat_completeness auto
termination
proof (relation "measure (\<lambda>(w, c). nat (max_pages c - pages_crawled (stats c)))", goal_cases)
  case 1
  show ?case by simp
next
  case (2 w c r1 c1 u current_url r c2 found_links)
  have s: "max_pages c1 = max_pages c" "stats c1 = stats c"
    using 2 sleep_budget [of "delay c" c r1 c1] by (auto split: if_splits)
  have p: "max_pages c2 = max_pages (c1\<lparr>url_queue := tl (url_queue c1)\<rparr>)"
    "pages_crawled (stats c2) = pages_crawled (stats (c1\<lparr>url_queue := tl (url_queue c1)\<rparr>))"
    using 2 process_page_budget [of w current_url "c1\<lparr>url_queue := tl (url_queue c1)\<rparr>" r c2]
    by simp_all
  from 2 s p show ?case
    by (simp add: report_progress_def)
qed

declare crawl_loop.simps [simp del]

text \<open>\<open>save_results\<close>, \<open>print_summary\<close> and \<open>crawl\<close>.\<close>

definition save_results ::
  "world \<Rightarrow> 'a PoliteCrawler_scheme \<Rightarrow> (exn + unit) \<times> 'a PoliteCrawler_scheme" where
  "save_results w c =
     (let c1 = c\<lparr>results := (results c)
                 \<lparr>res_metadata :=
                    Some \<lparr>md_start_url = start_url c, md_domain = domain c,
                          md_crawl_date = now w (length (trace c)),
                          md_stats = to_dict (stats c)\<rparr>\<rparr>\<rparr>
      in case folder ''root'' c1 of
           Inl e \<Rightarrow> (Inl e, c1)
         | Inr root_dir \<Rightarrow> write_file w (os_path_join root_dir ''crawl_results.json'') c1)"

definition print_summary ::
  "'a PoliteCrawler_scheme \<Rightarrow> (exn + unit) \<times> 'a PoliteCrawler_scheme" where
  "print_summary c =
     (case folder ''root'' c of
        Inl e \<Rightarrow> (Inl e, c)
      | Inr root_dir \<Rightarrow> (Inr (), log_event Print c))"

definition crawl ::
  "world \<Rightarrow> 'a PoliteCrawler_scheme \<Rightarrow> (exn + unit) \<times> 'a PoliteCrawler_scheme" where
  "crawl w c =
     (let c0 = c\<lparr>stats := (stats c)\<lparr>start_time := Some (now w (length (trace c)))\<rparr>\<rparr>
      in case setup_folders w c0 of
           (Inl e, c1) \<Rightarrow> (Inl e, c1)
         | (Inr u, c1) \<Rightarrow>
             (case check_robots_txt w c1 of
                (Inl e, c2) \<Rightarrow> (Inl e, c2)
              | (Inr u, c2) \<Rightarrow>
                  (case crawl_loop w
                          (c2\<lparr>url_queue := url_queue c2 @ [start_url c2],
                              visited_urls := insert (start_url c2) (visited_urls c2)\<rparr>) of
                     (Inl e, c3) \<Rightarrow> (Inl e, c3)
                   | (Inr u, c3) \<Rightarrow>
                       (case save_results w
                               (c3\<lparr>stats := (stats c3)
                                      \<lparr>end_time := Some (now w (length (trace c3)))\<rparr>\<rparr>) of
                          (Inl e, c4) \<Rightarrow> (Inl e, c4)
                        | (Inr u, c4) \<Rightarrow> print_summary c4))))"

text \<open>
  Names for the three parts of one iteration of the \<open>while\<close> loop of \<open>crawl\<close>: what
  precedes \<open>process_page\<close> (the sleep, when it does not raise, and \<open>popleft\<close>), what
  follows it (the counter, the progress callback, the new links), and the seeding of the
  queue before the loop.
\<close>

definition dequeue :: "'a PoliteCrawler_scheme \<Rightarrow> 'a PoliteCrawler_scheme" where
  "dequeue c =
     (if pages_crawled (stats c) > 0 then log_event (Sleep (delay c)) c else c)
       \<lparr>url_queue := tl (url_queue c)\<rparr>"

definition finish_page ::
  "string \<Rightarrow> string list \<Rightarrow> 'a PoliteCrawler_scheme \<Rightarrow> 'a PoliteCrawler_scheme" where
  "finish_page current_url found_links c =
     enqueue_links found_links
       (report_progress current_url
          (c\<lparr>stats := (stats c)\<lparr>pages_crawled := pages_crawled (stats c) + 1\<rparr>\<rparr>))"

definition seed :: "'a PoliteCrawler_scheme \<Rightarrow> 'a PoliteCrawler_scheme" where
  "seed c = c\<lparr>url_queue := url_queue c @ [start_url c],
              visited_urls := insert (start_url c) (visited_urls c)\<rparr>"

section \<open>SecurityCrawler (security\_crawler\_enhanced.py)\<close>

text \<open>
  A finding is a dict; \<open>severity_score\<close>, \<open>owasp\<close> and \<open>recommendation\<close> are keys that
  some findings lack. \<open>security_issues\<close> is a dict with five fixed keys.
\<close>

record finding =
  f_type :: string
  f_details :: string
  f_location :: string
  f_severity_score :: "rat option"
  f_owasp :: "string option"
  f_recommendation :: "string option"

record issues =
  critical :: "finding list"
  high :: "finding list"
  medium :: "finding list"
  low :: "finding list"
  info :: "finding list"

record SecurityCrawler = PoliteCrawler +
  security_issues :: issues
  cms_detected :: "string option"

text \<open>The en dash of the OWASP titles, in UTF-8.\<close>

definition en_dash :: string where
  "en_dash = [CHR 0xE2, CHR 0x80, CHR 0x93]"

definition append_high :: "finding \<Rightarrow> 'a SecurityCrawler_scheme \<Rightarrow> 'a SecurityCrawler_scheme" where
  "append_high f c = c\<lparr>security_issues := (security_issues c)\<lparr>high := high (security_issues c) @ [f]\<rparr>\<rparr>"

definition append_medium :: "finding \<Rightarrow> 'a SecurityCrawler_scheme \<Rightarrow> 'a SecurityCrawler_scheme" where
  "append_medium f c = c\<lparr>security_issues := (security_issues c)\<lparr>medium := medium (security_issues c) @ [f]\<rparr>\<rparr>"

definition append_low :: "finding \<Rightarrow> 'a SecurityCrawler_scheme \<Rightarrow> 'a SecurityCrawler_scheme" where
  "append_low f c = c\<lparr>security_issues := (security_issues c)\<lparr>low := low (security_issues c) @ [f]\<rparr>\<rparr>"

definition append_info :: "finding \<Rightarrow> 'a SecurityCrawler_scheme \<Rightarrow> 'a SecurityCrawler_scheme" where
  "append_info f c = c\<lparr>security_issues := (security_issues c)\<lparr>info := info (security_issues c) @ [f]\<rparr>\<rparr>"

definition hsts_finding :: "string \<Rightarrow> finding" where
  "hsts_finding url =
     \<lparr>f_type = ''Missing HSTS Header'',
      f_details = ''HSTS header not set - vulnerable to SSL stripping attacks'',
      f_location = url, f_severity_score = Some 7,
      f_owasp = Some (''A05:2021 '' @ en_dash @ '' Security Misconfiguration''),
      f_recommendation =
        Some ''Add header: Strict-Transport-Security: max-age=31536000; includeSubDomains''\<rparr>"

definition clickjacking_finding :: "string \<Rightarrow> finding" where
  "clickjacking_finding url =
     \<lparr>f_type = ''Missing Clickjacking Protection'',
      f_details = ''Neither X-Frame-Options nor CSP frame-ancestors set'',
      f_location = url, f_severity_score = Some 6,
      f_owasp = Some (''A05:2021 '' @ en_dash @ '' Security Misconfiguration''),
      f_recommendation = Some ''Add header: X-Frame-Options: SAMEORIGIN or use CSP''\<rparr>"

definition mime_finding :: "string \<Rightarrow> finding" where
  "mime_finding url =
     \<lparr>f_type = ''Missing X-Content-Type-Options'',
      f_details = ''MIME-sniffing attacks possible'',
      f_location = url, f_severity_score = Some 5,
      f_owasp = None,
      f_recommendation = Some ''Add header: X-Content-Type-Options: nosniff''\<rparr>"

definition csp_finding :: "string \<Rightarrow> finding" where
  "csp_finding url =
     \<lparr>f_type = ''Missing Content Security Policy'',
      f_details = ''No CSP header - vulnerable to XSS attacks'',
      f_location = url, f_severity_score = Some (13 / 2),
      f_owasp = Some (''A03:2021 '' @ en_dash @ '' Injection''),
      f_recommendation = Some ''Implement a strict Content-Security-Policy''\<rparr>"

definition xss_finding :: "string \<Rightarrow> finding" where
  "xss_finding url =
     \<lparr>f_type = ''Missing X-XSS-Protection'',
      f_details = ''Legacy XSS protection header not set'',
      f_location = url, f_severity_score = Some 3,
      f_owasp = None,
      f_recommendation = Some ''Add header: X-XSS-Protection: 1; mode=block''\<rparr>"

definition referrer_finding :: "string \<Rightarrow> finding" where
  "referrer_finding url =
     \<lparr>f_type = ''Missing Referrer-Policy'',
      f_details = ''No referrer policy set - may leak sensitive URLs'',
      f_location = url, f_severity_score = Some (7 / 2),
      f_owasp = None,
      f_recommendation = Some ''Add header: Referrer-Policy: strict-origin-when-cross-origin''\<rparr>"

definition permissions_finding :: "string \<Rightarrow> finding" where
  "permissions_finding url =
     \<lparr>f_type = ''Missing Permissions-Policy'',
      f_details = ''No permissions policy defined'',
      f_location = url, f_severity_score = None,
      f_owasp = None,
      f_recommendation = Some ''Consider adding Permissions-Policy header''\<rparr>"

text \<open>\<open>check_security_headers\<close>: seven independent tests, in the order of the source.\<close>

definition check_security_headers ::
  "Response \<Rightarrow> string \<Rightarrow> 'a SecurityCrawler_scheme \<Rightarrow> 'a SecurityCrawler_scheme" where
  "check_security_headers response url c =
     (let hs = headers response;
          c1 = (if \<not> header_in ''Strict-Transport-Security'' hs
                then append_high (hsts_finding url) c else c);
          c2 = (if \<not> header_in ''X-Frame-Options'' hs \<and> \<not> header_in ''Content-Security-Policy'' hs
                then append_medium (clickjacking_finding url) c1 else c1);
          c3 = (if \<not> header_in ''X-Content-Type-Options'' hs
                then append_medium (mime_finding url) c2 else c2);
          c4 = (if \<not> header_in ''Content-Security-Policy'' hs
                then append_medium (csp_finding url) c3 else c3);
          c5 = (if \<not> header_in ''X-XSS-Protection'' hs
                then append_low (xss_finding url) c4 else c4);
          c6 = (if \<not> header_in ''Referrer-Policy'' hs
                then append_low (referrer_finding url) c5 else c5)
      in if \<not> header_in ''Permissions-Policy'' hs \<and> \<not> header_in ''Feature-Policy'' hs
         then append_info (permissions_finding url) c6 else c6)"

text \<open>\<open>SecurityCrawler.__init__\<close>: the base constructor, then the two new fields.\<close>

definition SecurityCrawler_init ::
  "world \<Rightarrow> string set \<Rightarrow> string \<Rightarrow> int \<Rightarrow> rat \<Rightarrow> exn + SecurityCrawler" where
  "SecurityCrawler_init w fs url limit d =
     (case PoliteCrawler_init w fs url limit d of
        Inl e \<Rightarrow> Inl e
      | Inr c \<Rightarrow>
          Inr (PoliteCrawler.extend c
                 (SecurityCrawler.fields
                    \<lparr>critical = [], high = [], medium = [], low = [], info = []\<rparr> None)))"

section \<open>IndustrialCrawler (crawler\_app.py)\<close>

text \<open>
  The dict handed to the progress callback, and the crawler object with the events it
  causes. \<open>extracted_data\<close> keeps the URL of each extracted record; \<open>stats\<close> is the dict
  \<open>{'pages': 0, 'errors': 0}\<close>. \<open>ic_has_callback\<close> says whether a callback was given.
\<close>

record ic_progress =
  ip_current :: int
  ip_total :: int
  ip_percentage :: rat
  ip_url :: string

record IndustrialCrawler =
  ic_start_url :: string
  ic_max_pages :: int
  ic_delay :: rat
  ic_has_callback :: bool
  ic_domain :: string
  ic_visited_urls :: "string set"
  ic_url_queue :: "string list"
  ic_extracted_data :: "string list"
  ic_pages :: int
  ic_errors :: int
  ic_trace :: "event list"
  ic_progress_log :: "ic_progress list"

text \<open>\<open>__init__\<close>: the queue starts with the seed, the visited set starts empty.\<close>

definition IndustrialCrawler_init ::
  "world \<Rightarrow> string \<Rightarrow> int \<Rightarrow> rat \<Rightarrow> bool \<Rightarrow> exn + IndustrialCrawler" where
  "IndustrialCrawler_init w url limit d cb =
     (case url_netloc w url of
        Inl e \<Rightarrow> Inl e
      | Inr loc \<Rightarrow>
          Inr \<lparr>ic_start_url = url, ic_max_pages = limit, ic_delay = d, ic_has_callback = cb,
               ic_domain = loc, ic_visited_urls = {}, ic_url_queue = [url],
               ic_extracted_data = [], ic_pages = 0, ic_errors = 0,
               ic_trace = [], ic_progress_log = []\<rparr>)"

text \<open>The loop over \<open>soup.find_all('a', href=True)\<close>; a link is queued, not marked.\<close>

fun ic_find_links ::
  "world \<Rightarrow> string \<Rightarrow> string list \<Rightarrow> IndustrialCrawler \<Rightarrow> exn option \<times> IndustrialCrawler" where
  "ic_find_links w url [] c = (None, c)"
| "ic_find_links w url (href # rest) c =
     (if startswith href ''#'' \<or> startswith href ''javascript:'' \<or> startswith href ''mailto:''
      then ic_find_links w url rest c
      else
        (case urljoin w url href of
           Inl e \<Rightarrow> (Some e, c)
         | Inr full_url \<Rightarrow>
             (case url_netloc w full_url of
                Inl e \<Rightarrow> (Some e, c)
              | Inr loc \<Rightarrow>
                  (if loc = ic_domain c \<and> full_url \<notin> ic_visited_urls c
                   then ic_find_links w url rest (c\<lparr>ic_url_queue := ic_url_queue c @ [full_url]\<rparr>)
                   else ic_find_links w url rest c))))"

text \<open>
  The \<open>try\<close> block of one iteration: its result is the exception that ended it, if any.
  What it changed before the exception stays changed.
\<close>

definition ic_try_page ::
  "world \<Rightarrow> string \<Rightarrow> IndustrialCrawler \<Rightarrow> exn option \<times> IndustrialCrawler" where
  "ic_try_page w url c =
     (let c1 = c\<lparr>ic_trace := ic_trace c @ [Get url False 10]\<rparr> in
      case http_get w (length (ic_trace c)) url of
        Inl e \<Rightarrow> (Some e, c1)
      | Inr response \<Rightarrow>
          (case raise_for_status response of
             Inl e \<Rightarrow> (Some e, c1)
           | Inr u \<Rightarrow>
               (case extract_all_error w (body_text response) url of
                  Some e \<Rightarrow> (Some e, c1)
                | None \<Rightarrow>
                    (let c2 = c1\<lparr>ic_extracted_data := ic_extracted_data c1 @ [url],
                                 ic_pages := ic_pages c1 + 1\<rparr>;
                         c3 = (if ic_has_callback c2
                               then c2\<lparr>ic_progress_log := ic_progress_log c2 @
                                        [\<lparr>ip_current = ic_pages c2, ip_total = ic_max_pages c2,
                                          ip_percentage =
                                            of_int (ic_pages c2) / of_int (ic_max_pages c2) * 100,
                                          ip_url = url\<rparr>]\<rparr>
                               else c2)
                     in case BeautifulSoup w (body_text response) of
                          Inl e \<Rightarrow> (Some e, c3)
                        | Inr sp \<Rightarrow> ic_find_links w url (anchor_hrefs sp) c3))))"

text \<open>The \<open>try\<close> block with its handler \<open>except Exception\<close>, which counts an error.\<close>

definition ic_visit :: "world \<Rightarrow> string \<Rightarrow> IndustrialCrawler \<Rightarrow> IndustrialCrawler" where
  "ic_visit w url c =
     (case ic_try_page w url c of
        (None, c1) \<Rightarrow> c1
      | (Some e, c1) \<Rightarrow> c1\<lparr>ic_errors := ic_errors c1 + 1\<rparr>)"

lemma ic_find_links_budget:
  "ic_find_links w url hrefs c = (r, c') \<Longrightarrow>
     ic_max_pages c' = ic_max_pages c \<and> ic_pages c' = ic_pages c
     \<and> ic_visited_urls c' = ic_visited_urls c \<and> ic_trace c' = ic_trace c"
  by (induction hrefs arbitrary: c) (auto split: if_splits sum.splits)

lemma ic_visit_budget:
  "ic_max_pages (ic_visit w url c) = ic_max_pages c \<and>
   (ic_pages (ic_visit w url c) = ic_pages c + 1 \<or>
    (ic_pages (ic_visit w url c) = ic_pages c \<and> ic_url_queue (ic_visit w url c) = ic_url_queue c))"
  unfolding ic_visit_def ic_try_page_def Let_def
  by (auto split: sum.splits option.splits prod.splits if_splits dest!: ic_find_links_budget)

text \<open>\<open>time.sleep\<close> on the industrial crawler's trace; it raises for a negative length.\<close>

definition ic_sleep :: "rat \<Rightarrow> IndustrialCrawler \<Rightarrow> (exn + unit) \<times> IndustrialCrawler" where
  "ic_sleep secs c =
     (if secs < 0 then (Inl (ValueError ''sleep length must be non-negative''), c)
      else (Inr (), c\<lparr>ic_trace := ic_trace c @ [Sleep secs]\<rparr>))"

text \<open>
  The \<open>while\<close> loop of \<open>IndustrialCrawler.crawl\<close>: a dequeued URL that is already
  visited is dropped (\<open>continue\<close>); otherwise it is marked visited and fetched. The
  sleep is outside the \<open>try\<close> block, so its exception ends the loop and \<open>crawl\<close>.
\<close>

function ic_crawl_loop ::
  "world \<Rightarrow> IndustrialCrawler \<Rightarrow> (exn + unit) \<times> IndustrialCrawler" where
  "ic_crawl_loop w c =
     (if ic_url_queue c \<noteq> [] \<and> ic_pages c < ic_max_pages c then
        (case (if ic_pages c > 0 then ic_sleep (ic_delay c) c else (Inr (), c)) of
           (Inl e, c1) \<Rightarrow> (Inl e, c1)
         | (Inr u, c1) \<Rightarrow>
             (let url = hd (ic_url_queue c1);
                  c2 = c1\<lparr>ic_url_queue := tl (ic_url_queue c1)\<rparr>
              in if url \<in> ic_visited_urls c2 then ic_crawl_loop w c2
                 else ic_crawl_loop w
                        (ic_visit w url (c2\<lparr>ic_visited_urls := insert url (ic_visited_urls c2)\<rparr>))))
      else (Inr (), c))"
  by pat_completeness auto
termination
proof (relation "measures [\<lambda>(w, c). nat (ic_max_pages c - ic_pages c),
                            \<lambda>(w, c). length (ic_url_queue c)]", goal_cases)
  case 1
  show ?case by simp
next
  case (2 w c r1 c1 u url c2)
  then show ?case by (auto simp: ic_sleep_def split: if_splits)
next
  case (3 w c r1 c1 u url c2)
  let ?c = "c2\<lparr>ic_visited_urls := insert url (ic_visited_urls c2)\<rparr>"
  from ic_visit_budget [of w url ?c] 3 show ?case
    by (auto simp: ic_sleep_def split: if_splits)
qed

declare ic_crawl_loop.simps [simp del]

section \<open>Vocabulary of the frontier properties\<close>

text \<open>
  \<open>within_budget\<close>: the page counter, and every counter value reported to the progress
  callback, is at most \<open>max_pages\<close>. \<open>same_frontier\<close>: two states agree on the budget,
  the counter, the visited set, the queue, the progress log and the seed.
  \<open>frontier_ok\<close>: the URLs reported as processed followed by the queued ones are
  pairwise different, and all of them are in the visited set.
  \<open>fragment_free\<close>: none of them contains \<open>#\<close>, that is, all are stripped of their
  fragment.
  \<open>fetched_urls\<close>: the URLs requested, in order; \<open>ic_fetch_once\<close>: for the industrial
  crawler, no URL was requested twice and every requested URL is in the visited set.
\<close>

definition within_budget :: "'a PoliteCrawler_scheme \<Rightarrow> bool" where
  "within_budget c \<longleftrightarrow>
     pages_crawled (stats c) \<le> max_pages c
     \<and> (\<forall>p \<in> set (progress_log c). p_pages_crawled p \<le> max_pages c)"

definition same_frontier :: "'a PoliteCrawler_scheme \<Rightarrow> 'a PoliteCrawler_scheme \<Rightarrow> bool" where
  "same_frontier a b \<longleftrightarrow>
     max_pages b = max_pages a \<and> pages_crawled (stats b) = pages_crawled (stats a)
     \<and> visited_urls b = visited_urls a \<and> url_queue b = url_queue a
     \<and> progress_log b = progress_log a \<and> start_url b = start_url a"

definition frontier_ok :: "'a PoliteCrawler_scheme \<Rightarrow> bool" where
  "frontier_ok c \<longleftrightarrow>
     distinct (map p_current_url (progress_log c) @ url_queue c)
     \<and> set (map p_current_url (progress_log c)) \<union> set (url_queue c) \<subseteq> visited_urls c"

definition fragment_free :: "'a PoliteCrawler_scheme \<Rightarrow> bool" where
  "fragment_free c \<longleftrightarrow>
     (\<forall>u \<in> set (map p_current_url (progress_log c) @ url_queue c). CHR ''#'' \<notin> set u)"

fun fetched_urls :: "event list \<Rightarrow> string list" where
  "fetched_urls [] = []"
| "fetched_urls (Get url stream timeout # es) = url # fetched_urls es"
| "fetched_urls (ev # es) = fetched_urls es"

definition ic_fetch_once :: "IndustrialCrawler \<Rightarrow> bool" where
  "ic_fetch_once c \<longleftrightarrow>
     distinct (fetched_urls (ic_trace c))
     \<and> set (fetched_urls (ic_trace c)) \<subseteq> ic_visited_urls c"

section \<open>Vocabulary of the retry policy\<close>

text \<open>
  An attempt counts as failed when \<open>session.get\<close> raises a \<open>RequestException\<close> or the
  response has a status in 400..599 (what \<open>raise_for_status\<close> rejects).
  \<open>retry_events url stream k\<close> is the input and output of \<open>k\<close> attempts: \<open>k\<close> requests
  with a timeout of 10 seconds, a sleep of 1 second between two of them.
  \<open>retry_outcome\<close> relates a call of the retry loop that may make \<open>n\<close> attempts to its
  result: \<open>k\<close> attempts were made, all but the last failed, and the last one decides.
\<close>

definition attempt_fails :: "world \<Rightarrow> nat \<Rightarrow> string \<Rightarrow> bool" where
  "attempt_fails w t url =
     (case http_get w t url of
        Inl (RequestException m) \<Rightarrow> True
      | Inl e \<Rightarrow> False
      | Inr r \<Rightarrow> 400 \<le> status_code r \<and> status_code r < 600)"

fun retry_events :: "string \<Rightarrow> bool \<Rightarrow> nat \<Rightarrow> event list" where
  "retry_events url stream 0 = []"
| "retry_events url stream (Suc 0) = [Get url stream 10]"
| "retry_events url stream (Suc (Suc k)) = Get url stream 10 # Sleep 1 # retry_events url stream (Suc k)"

definition retry_outcome ::
  "world \<Rightarrow> string \<Rightarrow> bool \<Rightarrow> nat \<Rightarrow> 'a PoliteCrawler_scheme \<Rightarrow>
     (exn + Response option) \<times> 'a PoliteCrawler_scheme \<Rightarrow> bool" where
  "retry_outcome w url stream n c res =
     (\<exists>k. 1 \<le> k \<and> k \<le> n
        \<and> trace (snd res) = trace c @ retry_events url stream k
        \<and> (\<forall>i<k - 1. attempt_fails w (length (trace c) + 2 * i) url)
        \<and> (case fst res of
             Inr None \<Rightarrow>
               k = n \<and> attempt_fails w (length (trace c) + 2 * (k - 1)) url
               \<and> (\<exists>m. errors (stats (snd res)) = errors (stats c) @ [\<lparr>e_url = url, e_error = m\<rparr>])
           | Inr (Some response) \<Rightarrow>
               http_get w (length (trace c) + 2 * (k - 1)) url = Inr response
               \<and> \<not> (400 \<le> status_code response \<and> status_code response < 600)
               \<and> errors (stats (snd res)) = errors (stats c)
           | Inl e \<Rightarrow>
               http_get w (length (trace c) + 2 * (k - 1)) url = Inl e
               \<and> (\<forall>m. e \<noteq> RequestException m)
               \<and> errors (stats (snd res)) = errors (stats c)))"

section \<open>An example site\<close>

text \<open>
  The seed \<open>https://example.test/\<close> answers 200 with a page that links to \<open>/a\<close> on the
  same host and to \<open>https://other.test/\<close>; every other URL answers 404; robots.txt
  allows everything; the disk never fails. \<open>example_crawler\<close> is the crawler that
  \<open>__init__\<close> builds for this seed with a budget of 2 pages and a delay of 1.5 seconds.
\<close>

definition example_page :: Response where
  "example_page =
     \<lparr>status_code = 200, reason = ''OK'', r_url = ''https://example.test/'',
      headers = [(''Content-Type'', ''text/html'')],
      body_text = ''<a href=/a></a><a href=https://other.test/></a>'',
      chunks = [], iter_error = None\<rparr>"

definition example_soup :: soup where
  "example_soup =
     \<lparr>title = None, prettify = ''<a href=/a></a><a href=https://other.test/></a>'',
      imgs = [], stylesheet_hrefs = [], script_srcs = [], svgs = [],
      anchor_hrefs = [''https://example.test/a'', ''https://other.test/'']\<rparr>"

definition example_world :: world where
  "example_world =
     \<lparr>urljoin = (\<lambda>base href. Inr (if startswith href ''/'' then ''https://example.test'' @ href else href)),
      url_scheme = (\<lambda>url. Inr ''https''),
      url_netloc = (\<lambda>url. Inr (if startswith url ''https://example.test'' then ''example.test''
                                else ''other.test'')),
      url_path = (\<lambda>url. Inr (drop 20 url)),
      http_get = (\<lambda>t url. if url = ''https://example.test/'' then Inr example_page
                          else Inr (example_page\<lparr>status_code := 404, reason := ''Not Found'', r_url := url\<rparr>)),
      BeautifulSoup = (\<lambda>txt. Inr example_soup),
      extract_all_error = (\<lambda>txt url. None),
      robots_read = Robots_parsed (\<lambda>url. Inr True),
      open_error = (\<lambda>t path. None),
      makedirs_error = (\<lambda>t path. None),
      now = (\<lambda>t. int t)\<rparr>"

definition example_crawler :: PoliteCrawler where
  "example_crawler =
     \<lparr>start_url = ''https://example.test/'', max_pages = 2, delay = 3 / 2,
      domain = ''example.test'', base_url = ''https://example.test'',
      visited_urls = {}, url_queue = [], stats = CrawlerStats_init,
      results = \<lparr>res_metadata = None, res_pages = [], res_images = [],
                  res_svgs = [], res_data_files = []\<rparr>,
      folders = [], robots_parser = RobotFileParser_init,
      files = {}, trace = [], progress_log = []\<rparr>"

text \<open>A response with status 304, which \<open>raise_for_status\<close> accepts.\<close>

definition not_modified :: Response where
  "not_modified =
     \<lparr>status_code = 304, reason = ''Not Modified'', r_url = ''https://example.test/'',
      headers = [], body_text = [], chunks = [], iter_error = None\<rparr>"

text \<open>The example site when the host of robots.txt cannot be reached (\<open>URLError\<close>).\<close>

definition unreachable_world :: world where
  "unreachable_world =
     example_world\<lparr>robots_read :=
       Robots_raises (OSError ''<urlopen error [Errno -2] Name or service not known>'')\<rparr>"

text \<open>
  Variants of the example site: robots.txt answers 403; every \<open>open\<close> for writing fails
  (disk full); the seed page holds one inline \<open>svg\<close>; the seed page links twice to
  \<open>/a\<close>; every URL answers 200 with a page that links to \<open>https://example.test/#intro\<close>.
  Then the industrial and the security crawler for the seed, a crawler whose
  robots parser never read anything, and one whose parser allows everything.
\<close>

definition forbidden_world :: world where
  "forbidden_world = example_world\<lparr>robots_read := Robots_http_error 403\<rparr>"

definition disk_full_world :: world where
  "disk_full_world =
     example_world\<lparr>open_error := (\<lambda>t path. Some (OSError ''[Errno 28] No space left on device''))\<rparr>"

definition svg_world :: world where
  "svg_world =
     example_world\<lparr>BeautifulSoup := (\<lambda>txt. Inr (example_soup\<lparr>svgs := [''<svg></svg>'']\<rparr>))\<rparr>"

definition twice_linked_world :: world where
  "twice_linked_world =
     example_world\<lparr>BeautifulSoup := (\<lambda>txt. Inr (example_soup
        \<lparr>anchor_hrefs := [''https://example.test/a'', ''https://example.test/a'']\<rparr>))\<rparr>"

definition fragment_world :: world where
  "fragment_world =
     example_world
       \<lparr>url_path := (\<lambda>url. Inr (split_head CHR ''#'' (drop 20 url))),
        http_get := (\<lambda>t url. Inr example_page),
        BeautifulSoup := (\<lambda>txt. Inr (example_soup\<lparr>anchor_hrefs := [''https://example.test/#intro'']\<rparr>))\<rparr>"

text \<open>
  The example site when the seed page links to \<open>/a\<close> and \<open>/b\<close> and every other page
  answers 200 with a body that holds one inline \<open>svg\<close> and no link. Then the seed page
  as a server sends it that sets \<open>X-Frame-Options\<close>.
\<close>

definition svg_page :: Response where
  "svg_page = example_page\<lparr>body_text := ''<svg></svg>''\<rparr>"

definition svg_second_world :: world where
  "svg_second_world =
     example_world
       \<lparr>http_get := (\<lambda>t url. if url = ''https://example.test/'' then Inr example_page
                               else Inr (svg_page\<lparr>r_url := url\<rparr>)),
        BeautifulSoup := (\<lambda>txt. if txt = ''<svg></svg>''
                           then Inr (example_soup\<lparr>prettify := ''<svg></svg>'',
                                       svgs := [''<svg></svg>''], anchor_hrefs := []\<rparr>)
                           else Inr (example_soup\<lparr>anchor_hrefs :=
                                       [''https://example.test/a'', ''https://example.test/b'']\<rparr>))\<rparr>"

definition framed_page :: Response where
  "framed_page =
     example_page\<lparr>headers := [(''Content-Type'', ''text/html''), (''X-Frame-Options'', ''DENY'')]\<rparr>"

definition example_industrial_crawler :: IndustrialCrawler where
  "example_industrial_crawler =
     \<lparr>ic_start_url = ''https://example.test/'', ic_max_pages = 1, ic_delay = 1 / 2,
      ic_has_callback = False, ic_domain = ''example.test'', ic_visited_urls = {},
      ic_url_queue = [''https://example.test/''], ic_extracted_data = [], ic_pages = 0,
      ic_errors = 0, ic_trace = [], ic_progress_log = []\<rparr>"

definition example_security_crawler :: SecurityCrawler where
  "example_security_crawler =
     PoliteCrawler.extend example_crawler
       (SecurityCrawler.fields \<lparr>critical = [], high = [], medium = [], low = [], info = []\<rparr> None)"

definition never_read_crawler :: PoliteCrawler where
  "never_read_crawler = example_crawler\<lparr>url_queue := [''https://example.test/'']\<rparr>"

definition allowed_crawler :: PoliteCrawler where
  "allowed_crawler =
     example_crawler\<lparr>robots_parser := RobotFileParser_init\<lparr>allow_all := True\<rparr>\<rparr>"

section \<open>Rounding\<close>

lemma round_half_even_near: "\<bar>of_int (round_half_even y) - y\<bar> \<le> 1 / 2"
proof -
  define d where "d = y - of_int \<lfloor>y\<rfloor>"
  have d: "0 \<le> d" "d < 1"
    unfolding d_def by linarith+
  have y: "y = of_int \<lfloor>y\<rfloor> + d"
    by (simp add: d_def)
  consider "d < 1 / 2" | "1 / 2 < d" | "d = 1 / 2"
    by linarith
  then show ?thesis
  proof cases
    case 1
    then have "round_half_even y = \<lfloor>y\<rfloor>"
      by (simp add: round_half_even_def Let_def d_def)
    with 1 d show ?thesis
      by (simp add: d_def)
  next
    case 2
    then have "round_half_even y = \<lfloor>y\<rfloor> + 1"
      by (simp add: round_half_even_def Let_def d_def)
    with 2 d show ?thesis
      by (simp add: d_def)
  next
    case 3
    then have "round_half_even y = \<lfloor>y\<rfloor> \<or> round_half_even y = \<lfloor>y\<rfloor> + 1"
      by (simp add: round_half_even_def Let_def d_def)
    with 3 show ?thesis
      by (auto simp: d_def)
  qed
qed

lemma py_round_two_near: "\<bar>py_round x 2 - x\<bar> \<le> 1 / 200"
proof -
  have "\<bar>of_int (round_half_even (x * 100)) - x * 100\<bar> \<le> 1 / 2"
    by (rule round_half_even_near)
  then have "\<bar>(of_int (round_half_even (x * 100)) - x * 100) / 100\<bar> \<le> (1 / 2) / 100"
    by (simp add: abs_divide)
  then show ?thesis
    by (simp add: py_round_def diff_divide_distrib)
qed

lemma py_round_two_hundredths: "py_round x 2 * 100 = of_int (round_half_even (x * 100))"
  by (simp add: py_round_def)

lemma round_half_even_of_int: "round_half_even (of_int k) = k"
  by (simp add: round_half_even_def)

lemma total_mb_example: "py_round (of_int 1572864 / (1024 * 1024)) 2 = 3 / 2"
proof -
  have "(of_int 1572864 / (1024 * 1024) :: rat) * 10 ^ 2 = of_int 150"
    by simp
  then have "round_half_even ((of_int 1572864 / (1024 * 1024) :: rat) * 10 ^ 2) = 150"
    using round_half_even_of_int [of 150] by simp
  then show ?thesis
    by (simp add: py_round_def)
qed

section \<open>The summary of a run\<close>

text \<open>
  Claim C7. \<open>CrawlerStats.to_dict\<close> reports \<open>duration_seconds\<close> as 0 whenever the
  start time or the end time is unset; \<open>total_mb\<close> is \<open>total_bytes / 1048576\<close> rounded
  to two decimals, that is a whole number of hundredths at distance at most half a
  hundredth from the quotient, and 1572864 bytes give 1.5; the \<open>errors\<close> entry holds the
  first 10 stored errors, at most 10 of them, while \<open>errors_count\<close> is the length of
  the whole error list.
\<close>

theorem to_dict_summary:
  "(start_time s = None \<or> end_time s = None \<longrightarrow> duration_seconds (to_dict s) = 0)
   \<and> (\<exists>k :: int. total_mb (to_dict s) = of_int k / 100)
   \<and> \<bar>total_mb (to_dict s) - of_int (total_bytes s) / 1048576\<bar> \<le> 1 / 200
   \<and> (total_bytes s = 1572864 \<longrightarrow> total_mb (to_dict s) = 3 / 2)
   \<and> d_errors (to_dict s) = take 10 (errors s)
   \<and> length (d_errors (to_dict s)) \<le> 10
   \<and> errors_count (to_dict s) = int (length (errors s))"
proof -
  have dur: "start_time s = None \<or> end_time s = None \<longrightarrow> duration_seconds (to_dict s) = 0"
    by (auto simp: to_dict_def duration_of_def py_round_def round_half_even_def
             split: option.splits)
  have hundredths: "\<exists>k :: int. total_mb (to_dict s) = of_int k / 100"
    by (simp add: to_dict_def py_round_def)
  have near: "\<bar>total_mb (to_dict s) - of_int (total_bytes s) / 1048576\<bar> \<le> 1 / 200"
    using py_round_two_near [of "of_int (total_bytes s) / 1048576"]
    by (simp add: to_dict_def)
  have example: "total_bytes s = 1572864 \<longrightarrow> total_mb (to_dict s) = 3 / 2"
    using total_mb_example by (simp add: to_dict_def)
  have errs: "d_errors (to_dict s) = take 10 (errors s)"
    "length (d_errors (to_dict s)) \<le> 10"
    "errors_count (to_dict s) = int (length (errors s))"
    by (simp_all add: to_dict_def)
  from dur hundredths near example errs show ?thesis
    by blast
qed

theorem to_dict_summary_witness:
  "duration_seconds (to_dict (CrawlerStats_init\<lparr>total_bytes := 1572864\<rparr>)) = 0
   \<and> total_mb (to_dict (CrawlerStats_init\<lparr>total_bytes := 1572864\<rparr>)) = 3 / 2"
  using to_dict_summary [of "CrawlerStats_init\<lparr>total_bytes := 1572864\<rparr>"]
  by (simp add: CrawlerStats_init_def)

section \<open>The example crawler\<close>

lemma example_crawler_init:
  "PoliteCrawler_init example_world {} ''https://example.test/'' 2 (3 / 2) = Inr example_crawler"
  by (simp add: PoliteCrawler_init_def example_world_def example_crawler_def startswith_def)

section \<open>Retrying a download\<close>

lemma raise_for_status_cases:
  "raise_for_status r = Inr () \<and> \<not> (400 \<le> status_code r \<and> status_code r < 600)
   \<or> (\<exists>m. raise_for_status r = Inl (RequestException m)) \<and> 400 \<le> status_code r \<and> status_code r < 600"
  by (auto simp: raise_for_status_def)

lemma retry_outcome_last:
  assumes "attempt_fails w (length (trace c)) url" "1 \<le> n"
    and "trace c' = trace c @ [Get url stream 10]"
    and "errors (stats c') = errors (stats c) @ [\<lparr>e_url = url, e_error = m\<rparr>]"
  shows "n = 1 \<Longrightarrow> retry_outcome w url stream n c (Inr None, c')"
  using assms unfolding retry_outcome_def by (intro exI [of _ 1]) auto

lemma retry_outcome_success:
  assumes "http_get w (length (trace c)) url = Inr response"
    and "\<not> (400 \<le> status_code response \<and> status_code response < 600)" "1 \<le> n"
    and "trace c' = trace c @ [Get url stream 10]"
    and "errors (stats c') = errors (stats c)"
  shows "retry_outcome w url stream n c (Inr (Some response), c')"
  using assms unfolding retry_outcome_def by (intro exI [of _ 1]) auto

lemma retry_outcome_escape:
  assumes "http_get w (length (trace c)) url = Inl e" "\<forall>m. e \<noteq> RequestException m" "1 \<le> n"
    and "trace c' = trace c @ [Get url stream 10]"
    and "errors (stats c') = errors (stats c)"
  shows "retry_outcome w url stream n c (Inl e, c')"
  using assms unfolding retry_outcome_def by (intro exI [of _ 1]) auto

lemma retry_outcome_step:
  assumes f: "attempt_fails w (length (trace c)) url"
    and c2: "trace c2 = trace c @ [Get url stream 10, Sleep 1]"
      "errors (stats c2) = errors (stats c)"
    and rec: "retry_outcome w url stream n c2 res"
  shows "retry_outcome w url stream (Suc n) c res"
proof -
  from rec obtain k where k: "1 \<le> k" "k \<le> n"
    "trace (snd res) = trace c2 @ retry_events url stream k"
    "\<forall>i<k - 1. attempt_fails w (length (trace c2) + 2 * i) url"
    and out: "(case fst res of
             Inr None \<Rightarrow>
               k = n \<and> attempt_fails w (length (trace c2) + 2 * (k - 1)) url
               \<and> (\<exists>m. errors (stats (snd res)) = errors (stats c2) @ [\<lparr>e_url = url, e_error = m\<rparr>])
           | Inr (Some response) \<Rightarrow>
               http_get w (length (trace c2) + 2 * (k - 1)) url = Inr response
               \<and> \<not> (400 \<le> status_code response \<and> status_code response < 600)
               \<and> errors (stats (snd res)) = errors (stats c2)
           | Inl e \<Rightarrow>
               http_get w (length (trace c2) + 2 * (k - 1)) url = Inl e
               \<and> (\<forall>m. e \<noteq> RequestException m)
               \<and> errors (stats (snd res)) = errors (stats c2))"
    unfolding retry_outcome_def by blast
  from k(1) obtain j where j: "k = Suc j"
    by (cases k) auto
  have len: "length (trace c2) = length (trace c) + 2"
    by (simp add: c2)
  have t: "trace (snd res) = trace c @ retry_events url stream (Suc k)"
    using k(3) by (simp add: c2 j)
  have fails: "\<forall>i<Suc k - 1. attempt_fails w (length (trace c) + 2 * i) url"
  proof (intro allI impI)
    fix i assume i: "i < Suc k - 1"
    show "attempt_fails w (length (trace c) + 2 * i) url"
    proof (cases i)
      case 0
      with f show ?thesis by simp
    next
      case (Suc i')
      with i have "i' < k - 1" by simp
      with k(4) have "attempt_fails w (length (trace c2) + 2 * i') url" by blast
      then show ?thesis by (simp add: len Suc)
    qed
  qed
  have idx: "length (trace c2) + 2 * (k - Suc 0) = length (trace c) + 2 * k"
    using k(1) by (simp add: len j)
  show ?thesis
    unfolding retry_outcome_def
    apply (rule exI [of _ "Suc k"])
    using k(1,2) t fails out
    by (auto simp: idx c2(2) split: sum.splits option.splits)
qed


lemma download_attempts_outcome:
  "attempt < MAX_RETRIES \<Longrightarrow>
   retry_outcome w url stream (MAX_RETRIES - attempt) c (download_attempts w url stream attempt c)"
proof (induction w url stream attempt c rule: download_attempts.induct)
  case (1 w url stream attempt c)
  let ?c1 = "log_event (Get url stream TIMEOUT) c"
  let ?c2 = "log_event (Sleep 1) ?c1"
  have n: "1 \<le> MAX_RETRIES - attempt"
    using "1.prems" by simp
  have t1: "trace ?c1 = trace c @ [Get url stream 10]" "errors (stats ?c1) = errors (stats c)"
    by (simp_all add: log_event_def TIMEOUT_def)
  have t2: "trace ?c2 = trace c @ [Get url stream 10, Sleep 1]" "errors (stats ?c2) = errors (stats c)"
    by (simp_all add: log_event_def TIMEOUT_def)
  have failing: "retry_outcome w url stream (MAX_RETRIES - attempt) c
        (if attempt = MAX_RETRIES - 1
                   then (Inr None, record_error url (RequestException m) ?c1)
                   else download_attempts w url stream (attempt + 1) ?c2)"
    if f: "attempt_fails w (length (trace c)) url"
      and ih: "attempt \<noteq> MAX_RETRIES - 1 \<Longrightarrow> retry_outcome w url stream (MAX_RETRIES - (attempt + 1)) ?c2
             (download_attempts w url stream (attempt + 1) ?c2)" for m
  proof (cases "attempt = MAX_RETRIES - 1")
    case True
    have "retry_outcome w url stream (MAX_RETRIES - attempt) c
            (Inr None, record_error url (RequestException m) ?c1)"
    proof (rule retry_outcome_last [OF f n])
      show "trace (record_error url (RequestException m) ?c1) = trace c @ [Get url stream 10]"
        by (simp add: record_error_def t1)
      show "errors (stats (record_error url (RequestException m) ?c1))
            = errors (stats c) @ [\<lparr>e_url = url, e_error = m\<rparr>]"
        by (simp add: record_error_def t1)
      show "MAX_RETRIES - attempt = 1"
        using True "1.prems" by (simp add: MAX_RETRIES_def)
    qed
    with True show ?thesis by simp
  next
    case False
    then have s: "MAX_RETRIES - attempt = Suc (MAX_RETRIES - (attempt + 1))"
      using "1.prems" by simp
    from False show ?thesis
      by (simp add: s del: One_nat_def) (rule retry_outcome_step [OF f t2 ih [OF False]])
  qed
  show ?case
  proof (cases "http_get w (length (trace c)) url")
    case (Inr response)
    from raise_for_status_cases [of response] show ?thesis
    proof (elim disjE conjE exE)
      assume ok: "raise_for_status response = Inr ()"
        "\<not> (400 \<le> status_code response \<and> status_code response < 600)"
      have "retry_outcome w url stream (MAX_RETRIES - attempt) c (Inr (Some response), ?c1)"
        by (rule retry_outcome_success [OF Inr ok(2) n t1])
      then show ?thesis
        using "1.prems" Inr ok(1)
        by (subst download_attempts.simps) (simp add: session_get_def)
    next
      fix m assume bad: "raise_for_status response = Inl (RequestException m)"
        "400 \<le> status_code response" "status_code response < 600"
      have f: "attempt_fails w (length (trace c)) url"
        using Inr bad by (simp add: attempt_fails_def)
      have "retry_outcome w url stream (MAX_RETRIES - attempt) c
        (if attempt = MAX_RETRIES - 1
                   then (Inr None, record_error url (RequestException m) ?c1)
                   else download_attempts w url stream (attempt + 1) ?c2)"
      proof (rule failing [OF f])
        assume "attempt \<noteq> MAX_RETRIES - 1"
        with "1.prems" have "attempt + 1 < MAX_RETRIES" by simp
        with "1.IH"(2) "1.prems" Inr bad(1) \<open>attempt \<noteq> MAX_RETRIES - 1\<close>
        show "retry_outcome w url stream (MAX_RETRIES - (attempt + 1)) ?c2
             (download_attempts w url stream (attempt + 1) ?c2)"
          by (simp add: session_get_def)
      qed
      then show ?thesis
        using "1.prems" Inr bad(1)
        by (subst download_attempts.simps) (simp add: session_get_def)
    qed
  next
    case (Inl e)
    show ?thesis
    proof (cases "\<exists>m. e = RequestException m")
      case True
      then obtain m where e: "e = RequestException m" ..
      have f: "attempt_fails w (length (trace c)) url"
        using Inl e by (simp add: attempt_fails_def)
      have "retry_outcome w url stream (MAX_RETRIES - attempt) c
        (if attempt = MAX_RETRIES - 1
                   then (Inr None, record_error url (RequestException m) ?c1)
                   else download_attempts w url stream (attempt + 1) ?c2)"
      proof (rule failing [OF f])
        assume "attempt \<noteq> MAX_RETRIES - 1"
        with "1.prems" have "attempt + 1 < MAX_RETRIES" by simp
        with "1.IH"(1) "1.prems" Inl e \<open>attempt \<noteq> MAX_RETRIES - 1\<close>
        show "retry_outcome w url stream (MAX_RETRIES - (attempt + 1)) ?c2
             (download_attempts w url stream (attempt + 1) ?c2)"
          by (simp add: session_get_def)
      qed
      then show ?thesis
        using "1.prems" Inl e
        by (subst download_attempts.simps) (simp add: session_get_def)
    next
      case False
      then have ne: "\<forall>m. e \<noteq> RequestException m" by blast
      have "retry_outcome w url stream (MAX_RETRIES - attempt) c (Inl e, ?c1)"
        by (rule retry_outcome_escape [OF Inl ne n t1])
      then show ?thesis
        using "1.prems" Inl ne
        by (subst download_attempts.simps) (auto simp: session_get_def split: exn.splits)
    qed
  qed
qed

text \<open>
  Claim C4, amended. \<open>download_with_retry\<close> makes \<open>k\<close> requests, \<open>1 \<le> k \<le> 3\<close>, each
  with a timeout of 10 seconds, and sleeps 1 second between two of them; every attempt
  before the last one failed (a \<open>RequestException\<close> or a status in 400..599). It returns
  \<open>None\<close> only after three failed attempts and then has appended exactly one error
  record for the URL; it returns a response only when the last attempt was answered
  with a status outside 400..599 and then has appended no error record; and an
  exception leaves it only when \<open>session.get\<close> raised one that is not a
  \<open>RequestException\<close>, never a \<open>RequestException\<close>.
\<close>

theorem download_with_retry_policy:
  "\<exists>k. 1 \<le> k \<and> k \<le> 3
     \<and> trace (snd (download_with_retry w url stream c)) = trace c @ retry_events url stream k
     \<and> (\<forall>i<k - 1. attempt_fails w (length (trace c) + 2 * i) url)
     \<and> (case fst (download_with_retry w url stream c) of
          Inr None \<Rightarrow>
            k = 3 \<and> attempt_fails w (length (trace c) + 2 * (k - 1)) url
            \<and> (\<exists>m. errors (stats (snd (download_with_retry w url stream c)))
                     = errors (stats c) @ [\<lparr>e_url = url, e_error = m\<rparr>])
        | Inr (Some response) \<Rightarrow>
            http_get w (length (trace c) + 2 * (k - 1)) url = Inr response
            \<and> \<not> (400 \<le> status_code response \<and> status_code response < 600)
            \<and> errors (stats (snd (download_with_retry w url stream c))) = errors (stats c)
        | Inl e \<Rightarrow>
            http_get w (length (trace c) + 2 * (k - 1)) url = Inl e
            \<and> (\<forall>m. e \<noteq> RequestException m)
            \<and> errors (stats (snd (download_with_retry w url stream c))) = errors (stats c))"
proof -
  have "retry_outcome w url stream 3 c (download_attempts w url stream 0 c)"
    using download_attempts_outcome [of 0 w url stream c] by (simp add: MAX_RETRIES_def)
  then show ?thesis
    unfolding retry_outcome_def download_with_retry_def .
qed

lemma example_always_fails: "attempt_fails example_world t ''https://example.test/missing''"
  by (simp add: attempt_fails_def example_world_def)

theorem download_with_retry_policy_witness:
  "fst (download_with_retry example_world ''https://example.test/missing'' False example_crawler)
     = Inr None
   \<and> trace (snd (download_with_retry example_world ''https://example.test/missing'' False
         example_crawler))
     = [Get ''https://example.test/missing'' False 10, Sleep 1,
        Get ''https://example.test/missing'' False 10, Sleep 1,
        Get ''https://example.test/missing'' False 10]
   \<and> length (errors (stats (snd (download_with_retry example_world
         ''https://example.test/missing'' False example_crawler)))) = 1"
proof -
  let ?u = "''https://example.test/missing''"
  let ?res = "download_with_retry example_world ?u False example_crawler"
  have t0: "trace example_crawler = []" "errors (stats example_crawler) = []"
    by (simp_all add: example_crawler_def CrawlerStats_init_def)
  have nok: "http_get example_world t ?u \<noteq> Inr response
             \<or> (400 \<le> status_code response \<and> status_code response < 600)" for t response
    by (auto simp: example_world_def)
  have nex: "http_get example_world t ?u \<noteq> Inl e" for t e
    by (simp add: example_world_def)
  from download_with_retry_policy [of example_world ?u False example_crawler]
  obtain k where k: "1 \<le> k" "k \<le> 3"
    "trace (snd ?res) = trace example_crawler @ retry_events ?u False k"
    and out: "(case fst ?res of
          Inr None \<Rightarrow>
            k = 3 \<and> attempt_fails example_world (length (trace example_crawler) + 2 * (k - 1)) ?u
            \<and> (\<exists>m. errors (stats (snd ?res))
                     = errors (stats example_crawler) @ [\<lparr>e_url = ?u, e_error = m\<rparr>])
        | Inr (Some response) \<Rightarrow>
            http_get example_world (length (trace example_crawler) + 2 * (k - 1)) ?u = Inr response
            \<and> \<not> (400 \<le> status_code response \<and> status_code response < 600)
            \<and> errors (stats (snd ?res)) = errors (stats example_crawler)
        | Inl e \<Rightarrow>
            http_get example_world (length (trace example_crawler) + 2 * (k - 1)) ?u = Inl e
            \<and> (\<forall>m. e \<noteq> RequestException m)
            \<and> errors (stats (snd ?res)) = errors (stats example_crawler))"
    by blast
  from out nok nex have r: "fst ?res = Inr None"
    by (cases "fst ?res") (auto split: option.splits)
  with out have k3: "k = 3" and e: "\<exists>m. errors (stats (snd ?res)) = [\<lparr>e_url = ?u, e_error = m\<rparr>]"
    by (simp_all add: t0)
  have "retry_events ?u False 3 = [Get ?u False 10, Sleep 1, Get ?u False 10, Sleep 1, Get ?u False 10]"
    by (simp add: numeral_3_eq_3)
  with k(3) k3 t0 have "trace (snd ?res) = [Get ?u False 10, Sleep 1, Get ?u False 10, Sleep 1, Get ?u False 10]"
    by simp
  with r e show ?thesis
    by auto
qed

text \<open>
  Claim C4 as stated fails: a response with status 304 is not 2xx, yet the first attempt
  returns it and nothing is retried; and an \<open>OSError\<close> raised by \<open>session.get\<close> (as
  \<open>requests\<close> does for a missing CA bundle) leaves \<open>download_with_retry\<close>.
\<close>

theorem download_with_retry_counterexample:
  "download_with_retry (example_world\<lparr>http_get := (\<lambda>t url. Inr not_modified)\<rparr>)
       ''https://example.test/'' False example_crawler
     = (Inr (Some not_modified),
        example_crawler\<lparr>trace := [Get ''https://example.test/'' False 10]\<rparr>)
   \<and> \<not> (200 \<le> status_code not_modified \<and> status_code not_modified < 300)
   \<and> fst (download_with_retry
            (example_world\<lparr>http_get := (\<lambda>t url. Inl (OSError ''Could not find a suitable TLS CA certificate bundle''))\<rparr>)
            ''https://example.test/'' False example_crawler)
     = Inl (OSError ''Could not find a suitable TLS CA certificate bundle'')"
  by (simp add: download_with_retry_def download_attempts.simps session_get_def log_event_def
        raise_for_status_def not_modified_def example_crawler_def MAX_RETRIES_def TIMEOUT_def)

section \<open>robots.txt\<close>

lemma check_robots_txt_read_raises:
  assumes "robots_read w = Robots_raises e"
    and "urljoin w (base_url c) ''/robots.txt'' = Inr robots_url"
    and "robots_parser c = RobotFileParser_init"
  shows "fst (check_robots_txt w c) = Inr ()"
    and "can_fetch (snd (check_robots_txt w c)) url = False"
  using assms
  by (simp_all add: check_robots_txt_def rfp_read_def can_fetch_def rfp_can_fetch_def
        RobotFileParser_init_def)

text \<open>
  Claim C3 on the code. When reading robots.txt raises (the host is unreachable),
  \<open>check_robots_txt\<close> drops the exception, the parser stays in its never-read state,
  and \<open>can_fetch\<close> answers \<open>False\<close>: the page is skipped without any request.
\<close>

theorem can_fetch_after_failed_robots_read:
  "fst (check_robots_txt unreachable_world example_crawler) = Inr ()
   \<and> can_fetch (snd (check_robots_txt unreachable_world example_crawler))
        ''https://example.test/'' = False
   \<and> process_page unreachable_world ''https://example.test/''
        (snd (check_robots_txt unreachable_world example_crawler))
      = (Inr [], snd (check_robots_txt unreachable_world example_crawler))"
proof -
  have r: "robots_read unreachable_world
           = Robots_raises (OSError ''<urlopen error [Errno -2] Name or service not known>'')"
    by (simp add: unreachable_world_def)
  have j: "urljoin unreachable_world (base_url example_crawler) ''/robots.txt''
           = Inr ''https://example.test/robots.txt''"
    by (simp add: unreachable_world_def example_world_def startswith_def)
  have p: "robots_parser example_crawler = RobotFileParser_init"
    by (simp add: example_crawler_def)
  note f = check_robots_txt_read_raises [OF r j p]
  from f(2) [of "''https://example.test/''"] f(1) show ?thesis
    by (simp add: process_page_def)
qed

section \<open>Security headers\<close>

text \<open>
  Claim C8, amended. For a response without \<open>Strict-Transport-Security\<close>,
  \<open>Content-Security-Policy\<close> and \<open>X-Content-Type-Options\<close>, \<open>check_security_headers\<close>
  appends to \<open>high\<close> the missing-HSTS finding and nothing else, and to \<open>medium\<close> the
  MIME-sniffing finding and the missing-CSP finding, each once, preceded by one further
  finding, missing clickjacking protection, when \<open>X-Frame-Options\<close> is absent as well:
  two medium findings or three. Nothing is appended to \<open>critical\<close>. Each of the four
  findings carries the page URL and a non-empty recommendation.
\<close>

theorem check_security_headers_missing:
  assumes "\<not> header_in ''Strict-Transport-Security'' (headers response)"
    and "\<not> header_in ''Content-Security-Policy'' (headers response)"
    and "\<not> header_in ''X-Content-Type-Options'' (headers response)"
  shows "high (security_issues (check_security_headers response url c))
           = high (security_issues c) @ [hsts_finding url]
     \<and> medium (security_issues (check_security_headers response url c))
           = medium (security_issues c)
             @ (if header_in ''X-Frame-Options'' (headers response) then []
                else [clickjacking_finding url])
             @ [mime_finding url, csp_finding url]
     \<and> critical (security_issues (check_security_headers response url c))
           = critical (security_issues c)
     \<and> length (medium (security_issues (check_security_headers response url c)))
           = length (medium (security_issues c))
             + (if header_in ''X-Frame-Options'' (headers response) then 2 else 3)
     \<and> length (filter (\<lambda>f. f_type f = ''Missing Content Security Policy'')
           (drop (length (medium (security_issues c)))
              (medium (security_issues (check_security_headers response url c))))) = 1
     \<and> length (filter (\<lambda>f. f_details f = ''MIME-sniffing attacks possible'')
           (drop (length (medium (security_issues c)))
              (medium (security_issues (check_security_headers response url c))))) = 1
     \<and> (\<forall>f \<in> {hsts_finding url, clickjacking_finding url, mime_finding url, csp_finding url}.
           f_location f = url \<and> (\<exists>text. f_recommendation f = Some text \<and> text \<noteq> []))
     \<and> f_type (hsts_finding url) = ''Missing HSTS Header''
     \<and> f_type (clickjacking_finding url) = ''Missing Clickjacking Protection''
     \<and> f_type (csp_finding url) = ''Missing Content Security Policy''
     \<and> f_details (mime_finding url) = ''MIME-sniffing attacks possible''"
proof -
  have buckets: "high (security_issues (check_security_headers response url c))
           = high (security_issues c) @ [hsts_finding url]"
     "medium (security_issues (check_security_headers response url c))
           = medium (security_issues c)
             @ (if header_in ''X-Frame-Options'' (headers response) then []
                else [clickjacking_finding url])
             @ [mime_finding url, csp_finding url]"
     "critical (security_issues (check_security_headers response url c))
           = critical (security_issues c)"
    using assms
    by (simp_all add: check_security_headers_def Let_def append_high_def append_medium_def
          append_low_def append_info_def)
  have len: "length (medium (security_issues (check_security_headers response url c)))
           = length (medium (security_issues c))
             + (if header_in ''X-Frame-Options'' (headers response) then 2 else 3)"
    by (simp add: buckets(2))
  have counts: "length (filter (\<lambda>f. f_type f = ''Missing Content Security Policy'')
           (drop (length (medium (security_issues c)))
              (medium (security_issues (check_security_headers response url c))))) = 1"
     "length (filter (\<lambda>f. f_details f = ''MIME-sniffing attacks possible'')
           (drop (length (medium (security_issues c)))
              (medium (security_issues (check_security_headers response url c))))) = 1"
    by (simp_all add: buckets(2) mime_finding_def csp_finding_def clickjacking_finding_def)
  have texts: "\<forall>f \<in> {hsts_finding url, clickjacking_finding url, mime_finding url, csp_finding url}.
           f_location f = url \<and> (\<exists>text. f_recommendation f = Some text \<and> text \<noteq> [])"
    by (simp add: hsts_finding_def clickjacking_finding_def mime_finding_def csp_finding_def)
  have types: "f_type (hsts_finding url) = ''Missing HSTS Header''"
    "f_type (clickjacking_finding url) = ''Missing Clickjacking Protection''"
    "f_type (csp_finding url) = ''Missing Content Security Policy''"
    "f_details (mime_finding url) = ''MIME-sniffing attacks possible''"
    by (simp_all add: hsts_finding_def clickjacking_finding_def mime_finding_def csp_finding_def)
  from buckets len counts texts types show ?thesis
    by blast
qed

theorem check_security_headers_missing_witness:
  "high (security_issues (check_security_headers framed_page ''https://example.test/''
          example_security_crawler))
     = [hsts_finding ''https://example.test/'']
   \<and> medium (security_issues (check_security_headers framed_page ''https://example.test/''
          example_security_crawler))
     = [mime_finding ''https://example.test/'', csp_finding ''https://example.test/'']
   \<and> f_recommendation (csp_finding ''https://example.test/'')
     = Some ''Implement a strict Content-Security-Policy''"
proof -
  have h: "\<not> header_in ''Strict-Transport-Security'' (headers framed_page)"
    "\<not> header_in ''Content-Security-Policy'' (headers framed_page)"
    "\<not> header_in ''X-Content-Type-Options'' (headers framed_page)"
    "header_in ''X-Frame-Options'' (headers framed_page)"
    by (simp_all add: header_in_def lower_def lower_char_def framed_page_def example_page_def)
  have s: "security_issues example_security_crawler
           = \<lparr>critical = [], high = [], medium = [], low = [], info = []\<rparr>"
    by (simp add: example_security_crawler_def PoliteCrawler.extend_def SecurityCrawler.fields_def
          PoliteCrawler.defs SecurityCrawler.defs example_crawler_def)
  from check_security_headers_missing [OF h(1,2,3), of "''https://example.test/''"
      example_security_crawler] h(4) s
  show ?thesis
    by (simp add: csp_finding_def)
qed

text \<open>
  Claim C8 as stated fails. The example page lacks the three headers and
  \<open>X-Frame-Options\<close> too; for it \<open>check_security_headers\<close> appends three medium
  findings, not two: the first is the missing clickjacking protection, which is neither
  the missing-CSP nor the MIME-sniffing finding.
\<close>

theorem check_security_headers_counterexample:
  "\<not> header_in ''Strict-Transport-Security'' (headers example_page)
   \<and> \<not> header_in ''Content-Security-Policy'' (headers example_page)
   \<and> \<not> header_in ''X-Content-Type-Options'' (headers example_page)
   \<and> medium (security_issues example_security_crawler) = []
   \<and> medium (security_issues (check_security_headers example_page ''https://example.test/''
          example_security_crawler))
     = [clickjacking_finding ''https://example.test/'', mime_finding ''https://example.test/'',
        csp_finding ''https://example.test/'']
   \<and> length (medium (security_issues (check_security_headers example_page
          ''https://example.test/'' example_security_crawler))) = 3
   \<and> clickjacking_finding ''https://example.test/'' \<noteq> mime_finding ''https://example.test/''
   \<and> clickjacking_finding ''https://example.test/'' \<noteq> csp_finding ''https://example.test/''"
proof -
  have h: "\<not> header_in ''Strict-Transport-Security'' (headers example_page)"
    "\<not> header_in ''Content-Security-Policy'' (headers example_page)"
    "\<not> header_in ''X-Content-Type-Options'' (headers example_page)"
    "\<not> header_in ''X-Frame-Options'' (headers example_page)"
    by (simp_all add: header_in_def lower_def lower_char_def example_page_def)
  have s: "security_issues example_security_crawler
           = \<lparr>critical = [], high = [], medium = [], low = [], info = []\<rparr>"
    by (simp add: example_security_crawler_def PoliteCrawler.extend_def SecurityCrawler.fields_def
          PoliteCrawler.defs SecurityCrawler.defs example_crawler_def)
  have m: "medium (security_issues (check_security_headers example_page ''https://example.test/''
          example_security_crawler))
     = [clickjacking_finding ''https://example.test/'', mime_finding ''https://example.test/'',
        csp_finding ''https://example.test/'']"
    using h s
    by (simp add: check_security_headers_def Let_def append_high_def append_medium_def
          append_low_def append_info_def)
  have d: "clickjacking_finding ''https://example.test/'' \<noteq> mime_finding ''https://example.test/''"
    "clickjacking_finding ''https://example.test/'' \<noteq> csp_finding ''https://example.test/''"
    by (simp_all add: clickjacking_finding_def mime_finding_def csp_finding_def)
  from h(1,2,3) s m d show ?thesis
    by simp
qed

section \<open>Downloading an asset\<close>

lemma basename_trailing_slash: "path \<noteq> [] \<Longrightarrow> last path = CHR ''/'' \<Longrightarrow> os_path_basename path = []"
  by (cases path rule: rev_cases) (auto simp: os_path_basename_def)

text \<open>
  Claim C10. For a URL whose path has an empty basename, \<open>download_asset\<close> returns
  \<open>None\<close> and leaves the crawler and the world as they were: no request, no error
  record, no change of any statistic.
\<close>

theorem download_asset_empty_basename:
  assumes "url_path w url = Inr path" and "os_path_basename path = []"
  shows "download_asset w url fld asset_type c = (None, c)"
  using assms by (simp add: download_asset_def)

theorem download_asset_empty_basename_witness:
  "os_path_basename ''/img/'' = []
   \<and> download_asset example_world ''https://example.test/img/'' ''example.test/assets/images''
        ''image'' example_crawler = (None, example_crawler)"
proof -
  have p: "url_path example_world ''https://example.test/img/'' = Inr ''/img/''"
    by (simp add: example_world_def)
  have b: "os_path_basename ''/img/'' = []"
    by (simp add: os_path_basename_def)
  from download_asset_empty_basename [OF p b] b show ?thesis
    by simp
qed

lemma download_attempts_files:
  "files (snd (download_attempts w url stream attempt c)) = files c"
proof (induction w url stream attempt c rule: download_attempts.induct)
  case (1 w url stream attempt c)
  then show ?case
    by (subst download_attempts.simps)
       (auto simp: session_get_def log_event_def record_error_def
             split: prod.splits sum.splits exn.splits)
qed

lemma download_with_retry_files:
  "download_with_retry w url stream c = (r, c1) \<Longrightarrow> files c1 = files c"
  using download_attempts_files [of w url stream 0 c] by (simp add: download_with_retry_def)

lemma write_file_ok: "write_file w path c = (Inr u, c1) \<Longrightarrow> path \<in> files c1"
  by (auto simp: write_file_def log_event_def split: option.splits)

text \<open>
  Claim C9. When the target file of a URL already exists in the destination folder,
  \<open>download_asset\<close> returns its name and changes nothing: no request is made and
  \<open>assets_downloaded\<close> and \<open>total_bytes\<close> keep their values. Hence a second call after
  one that returned a filename is a no-op with the same result.
\<close>

theorem download_asset_idempotent:
  "(url_path w url = Inr path \<and> os_path_basename path \<noteq> []
      \<and> os_path_join fld (split_head CHR ''?'' (os_path_basename path)) \<in> files c
    \<longrightarrow> download_asset w url fld asset_type c
          = (Some (split_head CHR ''?'' (os_path_basename path)), c))
   \<and> (download_asset w url fld asset_type c = (Some filename, c1)
    \<longrightarrow> download_asset w url fld asset_type c1 = (Some filename, c1))"
proof (intro conjI impI)
  assume "url_path w url = Inr path \<and> os_path_basename path \<noteq> []
      \<and> os_path_join fld (split_head CHR ''?'' (os_path_basename path)) \<in> files c"
  then show "download_asset w url fld asset_type c
          = (Some (split_head CHR ''?'' (os_path_basename path)), c)"
    by (simp add: download_asset_def)
next
  assume a: "download_asset w url fld asset_type c = (Some filename, c1)"
  then obtain path where p: "url_path w url = Inr path" and ne: "os_path_basename path \<noteq> []"
    and fn: "filename = split_head CHR ''?'' (os_path_basename path)"
    by (auto simp: download_asset_def Let_def
             split: sum.splits if_splits prod.splits option.splits)
  have "os_path_join fld filename \<in> files c1"
    using a p ne fn
    by (auto simp: download_asset_def Let_def
             split: sum.splits if_splits prod.splits option.splits
             dest!: write_file_ok)
  with p ne fn show "download_asset w url fld asset_type c1 = (Some filename, c1)"
    by (simp add: download_asset_def)
qed

theorem download_asset_idempotent_witness:
  "download_asset example_world ''https://example.test/img/logo.png''
     ''example.test/assets/images'' ''image''
     (example_crawler\<lparr>files := {''example.test/assets/images/logo.png''}\<rparr>)
   = (Some ''logo.png'', example_crawler\<lparr>files := {''example.test/assets/images/logo.png''}\<rparr>)"
proof -
  let ?c = "example_crawler\<lparr>files := {''example.test/assets/images/logo.png''}\<rparr>"
  have p: "url_path example_world ''https://example.test/img/logo.png'' = Inr ''/img/logo.png''"
    by (simp add: example_world_def)
  have b: "os_path_basename ''/img/logo.png'' = ''logo.png''"
    by (simp add: os_path_basename_def)
  have f: "os_path_join ''example.test/assets/images'' (split_head CHR ''?'' ''logo.png'')
           \<in> files ?c"
    by (simp add: os_path_join_def split_head_def startswith_def)
  have s: "split_head CHR ''?'' ''logo.png'' = ''logo.png''"
    by (simp add: split_head_def)
  from download_asset_idempotent [of example_world "''https://example.test/img/logo.png''"
      "''/img/logo.png''" "''example.test/assets/images''" ?c "''image''" "''logo.png''" ?c]
    p b f s
  show ?thesis
    by simp
qed

section \<open>Steps of the crawl loop\<close>

lemma makedirs_all_frontier:
  "makedirs_all w fs c = (r, c') \<Longrightarrow>
     max_pages c' = max_pages c \<and> stats c' = stats c \<and> visited_urls c' = visited_urls c
     \<and> url_queue c' = url_queue c \<and> progress_log c' = progress_log c
     \<and> robots_parser c' = robots_parser c \<and> start_url c' = start_url c
     \<and> folders c' = folders c"
  by (induction fs arbitrary: c)
     (auto simp: makedirs_def log_event_def split: option.splits prod.splits sum.splits)

lemma setup_folders_frontier:
  "setup_folders w c = (r, c') \<Longrightarrow>
     max_pages c' = max_pages c \<and> stats c' = stats c \<and> visited_urls c' = visited_urls c
     \<and> url_queue c' = url_queue c \<and> progress_log c' = progress_log c
     \<and> robots_parser c' = robots_parser c \<and> start_url c' = start_url c"
  unfolding setup_folders_def Let_def
  by (drule makedirs_all_frontier) simp

lemma check_robots_txt_frontier:
  "check_robots_txt w c = (r, c') \<Longrightarrow>
     max_pages c' = max_pages c \<and> stats c' = stats c \<and> visited_urls c' = visited_urls c
     \<and> url_queue c' = url_queue c \<and> progress_log c' = progress_log c
     \<and> start_url c' = start_url c"
  unfolding check_robots_txt_def
  by (auto split: sum.splits prod.splits)

lemma save_results_frontier:
  "save_results w c = (r, c') \<Longrightarrow>
     max_pages c' = max_pages c \<and> stats c' = stats c \<and> visited_urls c' = visited_urls c
     \<and> url_queue c' = url_queue c \<and> progress_log c' = progress_log c \<and> start_url c' = start_url c"
  unfolding save_results_def Let_def
  by (auto simp: write_file_def log_event_def split: sum.splits option.splits)

lemma print_summary_frontier:
  "print_summary c = (r, c') \<Longrightarrow>
     max_pages c' = max_pages c \<and> stats c' = stats c \<and> visited_urls c' = visited_urls c
     \<and> url_queue c' = url_queue c \<and> progress_log c' = progress_log c \<and> start_url c' = start_url c"
  unfolding print_summary_def
  by (auto simp: log_event_def split: sum.splits)

lemma enqueue_links_progress_log [simp]:
  "progress_log (enqueue_links links c) = progress_log c"
  by (induction links arbitrary: c) auto

lemma crawl_loop_stop:
  "\<not> (url_queue c \<noteq> [] \<and> pages_crawled (stats c) < max_pages c) \<Longrightarrow> crawl_loop w c = (Inr (), c)"
  by (subst crawl_loop.simps) (simp only: if_False)

lemma crawl_loop_sleep_raises:
  assumes "url_queue c \<noteq> []" "pages_crawled (stats c) < max_pages c"
    and "0 < pages_crawled (stats c)" "delay c < 0"
  shows "crawl_loop w c = (Inl (ValueError ''sleep length must be non-negative''), c)"
  using assms
  by (subst crawl_loop.simps) (simp add: sleep_def)

lemma crawl_loop_step:
  assumes "url_queue c \<noteq> []" "pages_crawled (stats c) < max_pages c"
    and "\<not> (0 < pages_crawled (stats c) \<and> delay c < 0)"
  shows "crawl_loop w c =
     (case process_page w (hd (url_queue c)) (dequeue c) of
        (Inl e, c2) \<Rightarrow> (Inl e, c2)
      | (Inr found_links, c2) \<Rightarrow> crawl_loop w (finish_page (hd (url_queue c)) found_links c2))"
  using assms
  by (subst crawl_loop.simps)
     (simp add: sleep_def dequeue_def finish_page_def log_event_def Let_def
           cong del: sum.case_cong_weak prod.case_cong_weak)

lemma crawl_loop_induct [consumes 0, case_names stop sleep_raises abort continue]:
  assumes stop: "\<And>c. \<not> (url_queue c \<noteq> [] \<and> pages_crawled (stats c) < max_pages c) \<Longrightarrow> P c"
    and sleep_raises: "\<And>c. url_queue c \<noteq> [] \<Longrightarrow> pages_crawled (stats c) < max_pages c \<Longrightarrow>
        0 < pages_crawled (stats c) \<and> delay c < 0 \<Longrightarrow> P c"
    and abort: "\<And>c e c2. url_queue c \<noteq> [] \<Longrightarrow> pages_crawled (stats c) < max_pages c \<Longrightarrow>
        \<not> (0 < pages_crawled (stats c) \<and> delay c < 0) \<Longrightarrow>
        process_page w (hd (url_queue c)) (dequeue c) = (Inl e, c2) \<Longrightarrow> P c"
    and continue: "\<And>c found_links c2. url_queue c \<noteq> [] \<Longrightarrow> pages_crawled (stats c) < max_pages c \<Longrightarrow>
        \<not> (0 < pages_crawled (stats c) \<and> delay c < 0) \<Longrightarrow>
        process_page w (hd (url_queue c)) (dequeue c) = (Inr found_links, c2) \<Longrightarrow>
        P (finish_page (hd (url_queue c)) found_links c2) \<Longrightarrow> P c"
  shows "P c"
proof -
  have "w' = w \<Longrightarrow> P c" for w'
  proof (induction w' c rule: crawl_loop.induct)
    case (1 w' c)
    show ?case
    proof (cases "url_queue c \<noteq> [] \<and> pages_crawled (stats c) < max_pages c")
      case False
      then show ?thesis by (rule stop)
    next
      case True
      then have q: "url_queue c \<noteq> []" and b: "pages_crawled (stats c) < max_pages c"
        by auto
      show ?thesis
      proof (cases "0 < pages_crawled (stats c) \<and> delay c < 0")
        case True
        then show ?thesis by (rule sleep_raises [OF q b])
      next
        case s: False
        obtain res c2 where pp: "process_page w (hd (url_queue c)) (dequeue c) = (res, c2)"
          by (cases "process_page w (hd (url_queue c)) (dequeue c)")
        show ?thesis
        proof (cases res)
          case (Inl e)
          with pp have "process_page w (hd (url_queue c)) (dequeue c) = (Inl e, c2)"
            by simp
          then show ?thesis by (rule abort [OF q b s])
        next
          case (Inr found_links)
          with pp have pp': "process_page w (hd (url_queue c)) (dequeue c) = (Inr found_links, c2)"
            by simp
          have sl: "(if 0 < pages_crawled (stats c) then sleep (delay c) c else (Inr (), c))
              = (Inr (), (if 0 < pages_crawled (stats c) then log_event (Sleep (delay c)) c else c))"
            using s by (simp add: sleep_def)
          have "P (finish_page (hd (url_queue c)) found_links c2)"
            using "1.IH" [OF True sl [symmetric] refl refl] pp' "1.prems"
            by (auto simp: dequeue_def finish_page_def log_event_def split: if_splits)
          then show ?thesis by (rule continue [OF q b s pp'])
        qed
      qed
    qed
  qed
  then show ?thesis by simp
qed

lemma dequeue_fields [simp]:
  "max_pages (dequeue c) = max_pages c"
  "stats (dequeue c) = stats c"
  "progress_log (dequeue c) = progress_log c"
  "visited_urls (dequeue c) = visited_urls c"
  "url_queue (dequeue c) = tl (url_queue c)"
  "robots_parser (dequeue c) = robots_parser c"
  by (simp_all add: dequeue_def log_event_def)

lemma finish_page_fields [simp]:
  "max_pages (finish_page u links c) = max_pages c"
  "stats (finish_page u links c) = (stats c)\<lparr>pages_crawled := pages_crawled (stats c) + 1\<rparr>"
  "progress_log (finish_page u links c) = progress_log c @
      [\<lparr>p_pages_crawled = pages_crawled (stats c) + 1, p_max_pages = max_pages c,
        p_current_url = u, p_assets_downloaded = assets_downloaded (stats c),
        p_queue_size = int (length (url_queue c))\<rparr>]"
  by (simp_all add: finish_page_def report_progress_def)

lemma process_page_fields:
  assumes "process_page w url c = (r, c')"
  shows "max_pages c' = max_pages c" "pages_crawled (stats c') = pages_crawled (stats c)"
    "progress_log c' = progress_log c" "visited_urls c' = visited_urls c"
    "url_queue c' = url_queue c" "robots_parser c' = robots_parser c"
  using process_page_engine [OF assms] by (simp_all add: same_engine_def)

lemma init_fields:
  assumes "PoliteCrawler_init w fs url limit d = Inr c0"
  shows "max_pages c0 = limit" "stats c0 = CrawlerStats_init" "progress_log c0 = []"
    "url_queue c0 = []" "visited_urls c0 = {}" "start_url c0 = url"
    "robots_parser c0 = RobotFileParser_init"
  using assms by (auto simp: PoliteCrawler_init_def split: sum.splits)

lemma crawl_shape:
  "\<exists>cs. same_frontier c cs
     \<and> ((\<exists>e. fst (crawl w c) = Inl e) \<and> same_frontier cs (snd (crawl w c))
        \<or> same_frontier (snd (crawl_loop w (seed cs))) (snd (crawl w c))
          \<and> (fst (crawl w c) = Inr () \<longrightarrow> fst (crawl_loop w (seed cs)) = Inr ()))"
proof -
  define c0 where "c0 = c\<lparr>stats := (stats c)\<lparr>start_time := Some (now w (length (trace c)))\<rparr>\<rparr>"
  have sf0: "same_frontier c c0"
    by (simp add: same_frontier_def c0_def)
  obtain r1 c1 where s1: "setup_folders w c0 = (r1, c1)"
    by (cases "setup_folders w c0")
  have sf1: "same_frontier c c1"
    using sf0 setup_folders_frontier [OF s1] by (simp add: same_frontier_def)
  show ?thesis
  proof (cases r1)
    case (Inl e)
    with s1 have "crawl w c = (Inl e, c1)"
      by (simp add: crawl_def c0_def [symmetric])
    with sf1 show ?thesis
      by (intro exI [of _ c1]) (simp add: same_frontier_def)
  next
    case u1: (Inr u)
    obtain r2 c2 where s2: "check_robots_txt w c1 = (r2, c2)"
      by (cases "check_robots_txt w c1")
    have sf2: "same_frontier c c2"
      using sf1 check_robots_txt_frontier [OF s2] by (simp add: same_frontier_def)
    show ?thesis
    proof (cases r2)
      case (Inl e)
      with s1 u1 s2 have "crawl w c = (Inl e, c2)"
        by (simp add: crawl_def c0_def [symmetric])
      with sf2 show ?thesis
        by (intro exI [of _ c2]) (simp add: same_frontier_def)
    next
      case u2: (Inr v)
      obtain r4 c4 where s4: "crawl_loop w (seed c2) = (r4, c4)"
        by (cases "crawl_loop w (seed c2)")
      show ?thesis
      proof (cases r4)
        case (Inl e)
        with s1 u1 s2 u2 s4 have "crawl w c = (Inl e, c4)"
          by (simp add: crawl_def c0_def [symmetric] seed_def)
        with sf2 s4 show ?thesis
          by (intro exI [of _ c2]) (simp add: same_frontier_def)
      next
        case u4: (Inr x)
        define c5 where "c5 = c4\<lparr>stats := (stats c4)\<lparr>end_time := Some (now w (length (trace c4)))\<rparr>\<rparr>"
        have sf5: "same_frontier c4 c5"
          by (simp add: same_frontier_def c5_def)
        obtain r6 c6 where s6: "save_results w c5 = (r6, c6)"
          by (cases "save_results w c5")
        have sf6: "same_frontier c4 c6"
          using sf5 save_results_frontier [OF s6] by (simp add: same_frontier_def)
        obtain r7 c7 where s7: "print_summary c6 = (r7, c7)"
          by (cases "print_summary c6")
        have sf7: "same_frontier c4 c7"
          using sf6 print_summary_frontier [OF s7] by (auto simp add: same_frontier_def print_summary_def log_event_def split: sum.splits)
        have "crawl w c = (case r6 of Inl e \<Rightarrow> (Inl e, c6) | Inr y \<Rightarrow> (r7, c7))"
          using s1 u1 s2 u2 s4 u4 s6 s7
          by (simp add: crawl_def c0_def [symmetric] seed_def c5_def [symmetric] split: sum.splits)
        then have "same_frontier c4 (snd (crawl w c))"
          using sf6 sf7 by (simp split: sum.splits)
        with sf2 s4 u4 show ?thesis
          by (intro exI [of _ c2]) simp
      qed
    qed
  qed
qed

section \<open>Evaluating the example site\<close>

lemmas eval_defs =
  crawl_def sleep_def setup_folders_def makedirs_def check_robots_txt_def rfp_read_def
  rfp_can_fetch_def can_fetch_def save_results_def print_summary_def folder_def
  write_file_def log_event_def record_error_def process_page_def download_with_retry_def
  download_attempts.simps session_get_def raise_for_status_def response_ok_def
  MAX_RETRIES_def TIMEOUT_def os_path_join_def startswith_def strip_char_def
  split_head_def replace_def RobotFileParser_init_def CrawlerStats_init_def
  report_progress_def Let_def

lemma example_security_crawler_init:
  "SecurityCrawler_init example_world {} ''https://example.test/'' 2 (3 / 2)
     = Inr example_security_crawler"
  by (simp add: SecurityCrawler_init_def example_crawler_init example_security_crawler_def)

lemma example_industrial_crawler_init:
  "IndustrialCrawler_init example_world ''https://example.test/'' 1 (1 / 2) False
     = Inr example_industrial_crawler"
  by (simp add: IndustrialCrawler_init_def example_industrial_crawler_def example_world_def
        startswith_def)

lemma example_crawler_init_one:
  "PoliteCrawler_init example_world {} ''https://example.test/'' 1 (3 / 2)
     = Inr (example_crawler\<lparr>max_pages := 1\<rparr>)"
  by (simp add: PoliteCrawler_init_def example_world_def example_crawler_def startswith_def)

lemma crawl_budget_one:
  "(case crawl example_world (example_crawler\<lparr>max_pages := 1\<rparr>) of
      (r, c) \<Rightarrow> r = Inr () \<and> url_queue c = [''https://example.test/a''])"
  by (simp add: eval_defs example_world_def example_crawler_def example_page_def
        example_soup_def crawl_loop.simps)

section \<open>The page budget\<close>

lemma crawl_loop_budget:
  "within_budget c \<longrightarrow>
     max_pages (snd (crawl_loop w c)) = max_pages c
     \<and> within_budget (snd (crawl_loop w c))
     \<and> (fst (crawl_loop w c) = Inr () \<and> url_queue (snd (crawl_loop w c)) \<noteq> []
          \<longrightarrow> pages_crawled (stats (snd (crawl_loop w c))) = max_pages c)"
proof (induction c rule: crawl_loop_induct [where w = w])
  case (stop c)
  then show ?case
    by (auto simp: crawl_loop_stop within_budget_def)
next
  case (sleep_raises c)
  then show ?case
    by (simp add: crawl_loop_sleep_raises)
next
  case (abort c e c2)
  from process_page_fields [OF abort(4)] show ?case
    by (simp add: crawl_loop_step [OF abort(1,2,3)] abort(4) within_budget_def)
next
  case (continue c found_links c2)
  note f = process_page_fields [OF continue(4)]
  have "within_budget c \<Longrightarrow> within_budget (finish_page (hd (url_queue c)) found_links c2)"
    using continue(2) f by (auto simp: within_budget_def)
  with continue(5) f show ?case
    by (simp add: crawl_loop_step [OF continue(1,2,3)] continue(4))
qed

text \<open>
  For a crawler built with a budget \<open>limit \<ge> 0\<close>, the page counter never exceeds the
  budget: not in the final state of \<open>crawl\<close>, however it ended, and not in any snapshot
  handed to the progress callback. When \<open>crawl\<close> returns normally with a non-empty queue,
  the counter equals the budget.
\<close>

lemma crawl_within_budget:
  assumes "PoliteCrawler_init w fs url limit d = Inr c0" and "0 \<le> limit"
  shows "pages_crawled (stats (snd (crawl w c0))) \<le> limit
     \<and> max_pages (snd (crawl w c0)) = limit
     \<and> (\<forall>p \<in> set (progress_log (snd (crawl w c0))). p_pages_crawled p \<le> limit)
     \<and> (fst (crawl w c0) = Inr () \<and> url_queue (snd (crawl w c0)) \<noteq> []
          \<longrightarrow> pages_crawled (stats (snd (crawl w c0))) = limit)"
proof -
  note i = init_fields [OF assms(1)]
  have wb0: "within_budget c0"
    using i assms(2) by (simp add: within_budget_def CrawlerStats_init_def)
  from crawl_shape [of c0 w] obtain cs where cs: "same_frontier c0 cs"
    and sh: "(\<exists>e. fst (crawl w c0) = Inl e) \<and> same_frontier cs (snd (crawl w c0))
        \<or> same_frontier (snd (crawl_loop w (seed cs))) (snd (crawl w c0))
          \<and> (fst (crawl w c0) = Inr () \<longrightarrow> fst (crawl_loop w (seed cs)) = Inr ())"
    by blast
  have wbs: "within_budget (seed cs)" "max_pages (seed cs) = limit" "within_budget cs"
    using wb0 cs i(1) by (simp_all add: within_budget_def same_frontier_def seed_def)
  note l = crawl_loop_budget [of "seed cs" w, rule_format, OF wbs(1)]
  from sh show ?thesis
  proof (elim disjE conjE exE)
    fix e assume "fst (crawl w c0) = Inl e" "same_frontier cs (snd (crawl w c0))"
    with wbs(3) cs i(1) show ?thesis
      by (simp add: within_budget_def same_frontier_def)
  next
    assume "same_frontier (snd (crawl_loop w (seed cs))) (snd (crawl w c0))"
      "fst (crawl w c0) = Inr () \<longrightarrow> fst (crawl_loop w (seed cs)) = Inr ()"
    with l wbs(2) show ?thesis
      by (auto simp: within_budget_def same_frontier_def)
  qed
qed

lemma crawl_within_budget_example:
  "fst (crawl example_world (example_crawler\<lparr>max_pages := 1\<rparr>)) = Inr ()
   \<and> url_queue (snd (crawl example_world (example_crawler\<lparr>max_pages := 1\<rparr>)))
       = [''https://example.test/a'']
   \<and> pages_crawled (stats (snd (crawl example_world (example_crawler\<lparr>max_pages := 1\<rparr>)))) = 1"
proof -
  have z: "(0::int) \<le> 1" by simp
  from crawl_budget_one
  have e: "fst (crawl example_world (example_crawler\<lparr>max_pages := 1\<rparr>)) = Inr ()"
    "url_queue (snd (crawl example_world (example_crawler\<lparr>max_pages := 1\<rparr>)))
       = [''https://example.test/a'']"
    by (simp_all split: prod.splits)
  with crawl_within_budget [OF example_crawler_init_one z] show ?thesis
    by simp
qed

text \<open>
  Claim C1 on the code. The counter never exceeds the budget, but a run can end with a
  non-empty queue and the counter below the budget: an exception that \<open>process_page\<close>
  does not catch ends \<open>crawl\<close>. With a budget of 5 pages, the seed page is processed and
  queues \<open>/a\<close> and \<open>/b\<close>; the page \<open>/a\<close> holds an inline \<open>svg\<close>, for which
  \<open>self.folders["svg"]\<close> raises \<open>KeyError\<close>; the run ends there, with the counter at 1
  and \<open>/b\<close> still in the queue.
\<close>

theorem crawl_ends_below_budget:
  "PoliteCrawler_init svg_second_world {} ''https://example.test/'' 5 (3 / 2)
     = Inr (example_crawler\<lparr>max_pages := 5\<rparr>)
   \<and> (case crawl svg_second_world (example_crawler\<lparr>max_pages := 5\<rparr>) of
        (r, c) \<Rightarrow> r = Inl (KeyError ''svg'') \<and> pages_crawled (stats c) = 1 \<and> max_pages c = 5
          \<and> url_queue c = [''https://example.test/b'']
          \<and> map p_current_url (progress_log c) = [''https://example.test/'']
          \<and> fetched_urls (trace c) = [''https://example.test/'', ''https://example.test/a'']
          \<and> end_time (stats c) = None \<and> errors (stats c) = [])"
proof -
  have init: "PoliteCrawler_init svg_second_world {} ''https://example.test/'' 5 (3 / 2)
     = Inr (example_crawler\<lparr>max_pages := 5\<rparr>)"
    by (simp add: PoliteCrawler_init_def svg_second_world_def example_world_def example_crawler_def
          startswith_def)
  have run: "(case crawl svg_second_world (example_crawler\<lparr>max_pages := 5\<rparr>) of
        (r, c) \<Rightarrow> r = Inl (KeyError ''svg'') \<and> pages_crawled (stats c) = 1 \<and> max_pages c = 5
          \<and> url_queue c = [''https://example.test/b'']
          \<and> map p_current_url (progress_log c) = [''https://example.test/'']
          \<and> fetched_urls (trace c) = [''https://example.test/'', ''https://example.test/a'']
          \<and> end_time (stats c) = None \<and> errors (stats c) = [])"
    by (simp add: eval_defs svg_second_world_def svg_page_def example_world_def example_crawler_def
          example_page_def example_soup_def crawl_loop.simps)
  from init run show ?thesis
    by (rule conjI)
qed

section \<open>Each URL is processed once\<close>

lemma enqueue_links_frontier:
  "distinct (xs @ url_queue c) \<Longrightarrow> set xs \<union> set (url_queue c) \<subseteq> visited_urls c \<Longrightarrow>
     distinct (xs @ url_queue (enqueue_links links c))
     \<and> set xs \<union> set (url_queue (enqueue_links links c)) \<subseteq> visited_urls (enqueue_links links c)"
proof (induction links arbitrary: c)
  case Nil
  then show ?case by simp
next
  case (Cons link rest)
  show ?case
  proof (cases "link \<in> visited_urls c")
    case True
    with Cons show ?thesis by simp
  next
    case False
    let ?c = "c\<lparr>visited_urls := insert link (visited_urls c), url_queue := url_queue c @ [link]\<rparr>"
    have "distinct (xs @ url_queue ?c)" "set xs \<union> set (url_queue ?c) \<subseteq> visited_urls ?c"
      using Cons.prems False by auto
    from Cons.IH [OF this] False show ?thesis by simp
  qed
qed

lemma finish_page_frontier:
  assumes "distinct (map p_current_url (progress_log c) @ u # url_queue c)"
    and "set (map p_current_url (progress_log c)) \<union> set (u # url_queue c) \<subseteq> visited_urls c"
  shows "frontier_ok (finish_page u links c)"
proof -
  let ?c = "report_progress u (c\<lparr>stats := (stats c)\<lparr>pages_crawled := pages_crawled (stats c) + 1\<rparr>\<rparr>)"
  let ?xs = "map p_current_url (progress_log c) @ [u]"
  have "distinct (?xs @ url_queue ?c)" "set ?xs \<union> set (url_queue ?c) \<subseteq> visited_urls ?c"
    using assms by (auto simp: report_progress_def)
  from enqueue_links_frontier [OF this, of links] show ?thesis
    by (simp add: frontier_ok_def finish_page_def) (simp add: report_progress_def)
qed

lemma crawl_loop_frontier:
  "frontier_ok c \<longrightarrow> frontier_ok (snd (crawl_loop w c))"
proof (induction c rule: crawl_loop_induct [where w = w])
  case (stop c)
  then show ?case by (simp add: crawl_loop_stop)
next
  case (sleep_raises c)
  then show ?case
    by (simp add: crawl_loop_sleep_raises)
next
  case (abort c e c2)
  from abort(1) obtain u rest where q: "url_queue c = u # rest"
    by (cases "url_queue c") auto
  have "crawl_loop w c = (Inl e, c2)"
    by (simp add: crawl_loop_step [OF abort(1,2,3)] abort(4))
  with process_page_fields [OF abort(4)] q show ?case
    by (auto simp: frontier_ok_def)
next
  case (continue c found_links c2)
  from continue(1) obtain u rest where q: "url_queue c = u # rest"
    by (cases "url_queue c") auto
  note f = process_page_fields [OF continue(4)]
  have "frontier_ok c \<Longrightarrow> frontier_ok (finish_page (hd (url_queue c)) found_links c2)"
    by (rule finish_page_frontier) (use f q in \<open>auto simp: frontier_ok_def\<close>)
  moreover have "crawl_loop w c = crawl_loop w (finish_page (hd (url_queue c)) found_links c2)"
    by (simp add: crawl_loop_step [OF continue(1,2,3)] continue(4))
  ultimately show ?case
    using continue(5) by simp
qed

lemma same_frontier_ok: "same_frontier a b \<Longrightarrow> frontier_ok a \<Longrightarrow> frontier_ok b"
  by (simp add: same_frontier_def frontier_ok_def)

lemma crawl_frontier:
  assumes "PoliteCrawler_init w fs url limit d = Inr c0"
  shows "frontier_ok (snd (crawl w c0))"
proof -
  note i = init_fields [OF assms(1)]
  from crawl_shape [of c0 w] obtain cs where cs: "same_frontier c0 cs"
    and sh: "(\<exists>e. fst (crawl w c0) = Inl e) \<and> same_frontier cs (snd (crawl w c0))
        \<or> same_frontier (snd (crawl_loop w (seed cs))) (snd (crawl w c0))
          \<and> (fst (crawl w c0) = Inr () \<longrightarrow> fst (crawl_loop w (seed cs)) = Inr ())"
    by blast
  have ok: "frontier_ok (seed cs)" "frontier_ok cs"
    using cs i by (simp_all add: frontier_ok_def same_frontier_def seed_def)
  from sh show ?thesis
  proof (elim disjE conjE exE)
    fix e assume "same_frontier cs (snd (crawl w c0))"
    with ok(2) show ?thesis by (rule same_frontier_ok [rotated])
  next
    assume "same_frontier (snd (crawl_loop w (seed cs))) (snd (crawl w c0))"
    moreover have "frontier_ok (snd (crawl_loop w (seed cs)))"
      using crawl_loop_frontier [of "seed cs" w] ok(1) by simp
    ultimately show ?thesis by (rule same_frontier_ok)
  qed
qed

lemma fetched_urls_append [simp]: "fetched_urls (xs @ ys) = fetched_urls xs @ fetched_urls ys"
  by (induction xs rule: fetched_urls.induct) auto

lemma ic_find_links_trace:
  "ic_find_links w url hrefs c = (r, c') \<Longrightarrow>
     ic_trace c' = ic_trace c \<and> ic_visited_urls c' = ic_visited_urls c"
  by (induction hrefs arbitrary: c) (auto split: if_splits sum.splits)

lemma ic_visit_trace:
  "ic_trace (ic_visit w url c) = ic_trace c @ [Get url False 10]
   \<and> ic_visited_urls (ic_visit w url c) = ic_visited_urls c"
  unfolding ic_visit_def ic_try_page_def Let_def
  by (auto split: sum.splits option.splits prod.splits if_splits dest!: ic_find_links_trace)

lemma ic_crawl_loop_fetch_once:
  "ic_fetch_once c \<Longrightarrow> ic_fetch_once (snd (ic_crawl_loop w c))"
proof (induction w c rule: ic_crawl_loop.induct)
  case (1 w c)
  show ?case
  proof (cases "ic_url_queue c \<noteq> [] \<and> ic_pages c < ic_max_pages c")
    case False
    then have "ic_crawl_loop w c = (Inr (), c)"
      by (subst ic_crawl_loop.simps) (simp only: if_False)
    with "1.prems" show ?thesis
      by simp
  next
    case True
    show ?thesis
    proof (cases "0 < ic_pages c \<and> ic_delay c < 0")
      case raises: True
      with True have "ic_crawl_loop w c = (Inl (ValueError ''sleep length must be non-negative''), c)"
        by (subst ic_crawl_loop.simps) (simp add: ic_sleep_def)
      with "1.prems" show ?thesis
        by simp
    next
      case sleeps: False
      define c1 where "c1 = (if ic_pages c > 0 then c\<lparr>ic_trace := ic_trace c @ [Sleep (ic_delay c)]\<rparr> else c)"
      define url where "url = hd (ic_url_queue c1)"
      define c2 where "c2 = c1\<lparr>ic_url_queue := tl (ic_url_queue c1)\<rparr>"
      have sl: "(if ic_pages c > 0 then ic_sleep (ic_delay c) c else (Inr (), c)) = (Inr (), c1)"
        using sleeps by (simp add: ic_sleep_def c1_def)
      have ok2: "ic_fetch_once c2"
        using "1.prems" by (simp add: ic_fetch_once_def c2_def c1_def)
      have unfold: "ic_crawl_loop w c =
          (if url \<in> ic_visited_urls c2 then ic_crawl_loop w c2
           else ic_crawl_loop w (ic_visit w url (c2\<lparr>ic_visited_urls := insert url (ic_visited_urls c2)\<rparr>)))"
        using True by (subst ic_crawl_loop.simps) (simp add: sl url_def c2_def Let_def)
      show ?thesis
      proof (cases "url \<in> ic_visited_urls c2")
        case seen: True
        from "1.IH"(1) [OF True sl [symmetric] refl url_def c2_def seen ok2] show ?thesis
          by (simp add: unfold seen)
      next
        case new: False
        let ?c = "c2\<lparr>ic_visited_urls := insert url (ic_visited_urls c2)\<rparr>"
        have "ic_fetch_once (ic_visit w url ?c)"
          using ok2 new ic_visit_trace [of w url ?c]
          by (auto simp: ic_fetch_once_def)
        from "1.IH"(2) [OF True sl [symmetric] refl url_def c2_def new this] show ?thesis
          by (simp add: unfold new)
      qed
    qed
  qed
qed

lemma ic_init_fetch_once:
  "IndustrialCrawler_init w url limit d cb = Inr i0 \<Longrightarrow> ic_fetch_once i0"
  by (auto simp: IndustrialCrawler_init_def ic_fetch_once_def split: sum.splits)

lemma split_head_no_sep: "sep \<notin> set (split_head sep s)"
  by (auto simp: split_head_def dest: set_takeWhileD)

lemma find_internal_links_no_fragment:
  "find_internal_links w url hrefs acc c = (Inr links, c') \<Longrightarrow>
     \<forall>l \<in> set acc. CHR ''#'' \<notin> set l \<Longrightarrow> \<forall>l \<in> set links. CHR ''#'' \<notin> set l"
proof (induction hrefs arbitrary: acc c)
  case Nil
  then show ?case by simp
next
  case (Cons href rest)
  show ?case
  proof (cases "urljoin w url href")
    case (Inl e)
    with Cons.prems show ?thesis by simp
  next
    case j: (Inr full_url)
    show ?thesis
    proof (cases "url_netloc w full_url")
      case (Inl e)
      with Cons.prems j show ?thesis by simp
    next
      case n: (Inr loc)
      let ?clean = "split_head CHR ''#'' full_url"
      show ?thesis
      proof (cases "loc = domain c \<and> \<not> contains href ''mailto:'' \<and> ?clean \<notin> visited_urls c")
        case True
        have "\<forall>l \<in> set (acc @ [?clean]). CHR ''#'' \<notin> set l"
          using Cons.prems(2) split_head_no_sep [of "CHR ''#''" full_url] by auto
        with Cons.IH [of "acc @ [?clean]"] Cons.prems(1) j n True show ?thesis
          by (simp add: Let_def)
      next
        case False
        with Cons.IH [of acc c] Cons.prems j n show ?thesis
          by (auto simp: Let_def split: if_splits)
      qed
    qed
  qed
qed

lemma process_page_no_fragment:
  "process_page w url c = (Inr links, c') \<Longrightarrow> \<forall>l \<in> set links. CHR ''#'' \<notin> set l"
  unfolding process_page_def Let_def
  by (auto split: sum.splits if_splits prod.splits option.splits
           dest!: find_internal_links_no_fragment)

lemma enqueue_links_fragment_free:
  "\<forall>l \<in> set links. CHR ''#'' \<notin> set l \<Longrightarrow> \<forall>u \<in> set (url_queue c). CHR ''#'' \<notin> set u \<Longrightarrow>
     \<forall>u \<in> set (url_queue (enqueue_links links c)). CHR ''#'' \<notin> set u"
proof (induction links arbitrary: c)
  case Nil
  then show ?case by simp
next
  case (Cons link rest)
  from Cons.prems(1) have rest: "\<forall>l \<in> set rest. CHR ''#'' \<notin> set l" and l: "CHR ''#'' \<notin> set link"
    by simp_all
  show ?case
  proof (cases "link \<in> visited_urls c")
    case True
    with Cons.IH [OF rest Cons.prems(2)] show ?thesis by simp
  next
    case False
    let ?c = "c\<lparr>visited_urls := insert link (visited_urls c), url_queue := url_queue c @ [link]\<rparr>"
    have "\<forall>u \<in> set (url_queue ?c). CHR ''#'' \<notin> set u"
      using Cons.prems(2) l by simp
    from Cons.IH [OF rest this] False show ?thesis by simp
  qed
qed

lemma crawl_loop_fragment_free:
  "fragment_free c \<longrightarrow> fragment_free (snd (crawl_loop w c))"
proof (induction c rule: crawl_loop_induct [where w = w])
  case (stop c)
  then show ?case by (simp add: crawl_loop_stop)
next
  case (sleep_raises c)
  then show ?case
    by (simp add: crawl_loop_sleep_raises)
next
  case (abort c e c2)
  have "crawl_loop w c = (Inl e, c2)"
    by (simp add: crawl_loop_step [OF abort(1,2,3)] abort(4))
  with process_page_fields [OF abort(4)] abort(1) show ?case
    by (cases "url_queue c") (auto simp: fragment_free_def)
next
  case (continue c found_links c2)
  note f = process_page_fields [OF continue(4)]
  have run: "crawl_loop w c = crawl_loop w (finish_page (hd (url_queue c)) found_links c2)"
    by (simp add: crawl_loop_step [OF continue(1,2,3)] continue(4))
  have "fragment_free (finish_page (hd (url_queue c)) found_links c2)" if ff: "fragment_free c"
  proof -
    let ?c = "report_progress (hd (url_queue c))
                (c2\<lparr>stats := (stats c2)\<lparr>pages_crawled := pages_crawled (stats c2) + 1\<rparr>\<rparr>)"
    from continue(1) obtain u rest where q: "url_queue c = u # rest"
      by (cases "url_queue c") auto
    have "\<forall>u \<in> set (url_queue ?c). CHR ''#'' \<notin> set u"
      using ff f q by (auto simp: fragment_free_def report_progress_def)
    from enqueue_links_fragment_free [OF process_page_no_fragment [OF continue(4)] this]
    have "\<forall>u \<in> set (url_queue (finish_page (hd (url_queue c)) found_links c2)). CHR ''#'' \<notin> set u"
      by (simp add: finish_page_def)
    moreover have "\<forall>u \<in> set (map p_current_url (progress_log (finish_page (hd (url_queue c)) found_links c2))).
        CHR ''#'' \<notin> set u"
      using ff f q by (auto simp: fragment_free_def)
    ultimately show ?thesis
      by (auto simp: fragment_free_def)
  qed
  with continue(5) run show ?case
    by simp
qed

lemma same_frontier_fragment_free:
  "same_frontier a b \<Longrightarrow> fragment_free a \<Longrightarrow> fragment_free b"
  by (simp add: same_frontier_def fragment_free_def)

lemma crawl_fragment_free:
  assumes "PoliteCrawler_init w fs url limit d = Inr c0" and "CHR ''#'' \<notin> set url"
  shows "fragment_free (snd (crawl w c0))"
proof -
  note i = init_fields [OF assms(1)]
  from crawl_shape [of c0 w] obtain cs where cs: "same_frontier c0 cs"
    and sh: "(\<exists>e. fst (crawl w c0) = Inl e) \<and> same_frontier cs (snd (crawl w c0))
        \<or> same_frontier (snd (crawl_loop w (seed cs))) (snd (crawl w c0))
          \<and> (fst (crawl w c0) = Inr () \<longrightarrow> fst (crawl_loop w (seed cs)) = Inr ())"
    by blast
  have ok: "fragment_free (seed cs)" "fragment_free cs"
    using cs i assms(2) by (simp_all add: fragment_free_def same_frontier_def seed_def)
  from sh show ?thesis
  proof (elim disjE conjE exE)
    fix e assume "same_frontier cs (snd (crawl w c0))"
    with ok(2) show ?thesis by (rule same_frontier_fragment_free [rotated])
  next
    assume "same_frontier (snd (crawl_loop w (seed cs))) (snd (crawl w c0))"
    moreover have "fragment_free (snd (crawl_loop w (seed cs)))"
      using crawl_loop_fragment_free [of "seed cs" w] ok(1) by simp
    ultimately show ?thesis by (rule same_frontier_fragment_free)
  qed
qed

text \<open>
  Claim C2, amended. In a run of \<open>PoliteCrawler.crawl\<close> the URLs processed so far
  followed by the URLs in the queue are pairwise different and all are in the visited
  set: a URL, the seed included, is marked visited when it is queued, is never queued
  twice and is processed at most once. URLs are compared as stored: a link is stored
  with its fragment stripped, the seed as given, so when the seed has no fragment none
  of the processed or queued URLs has one. In a run of \<open>IndustrialCrawler.crawl\<close> no
  URL is requested twice and every requested URL is in the visited set: a URL is marked
  when it is dequeued, and a dequeued URL that is already marked is dropped.
\<close>

theorem no_url_processed_twice:
  "(PoliteCrawler_init w fs url limit d = Inr c0 \<longrightarrow>
      distinct (map p_current_url (progress_log (snd (crawl w c0))) @ url_queue (snd (crawl w c0)))
      \<and> set (map p_current_url (progress_log (snd (crawl w c0)))) \<union> set (url_queue (snd (crawl w c0)))
          \<subseteq> visited_urls (snd (crawl w c0))
      \<and> (CHR ''#'' \<notin> set url \<longrightarrow>
            (\<forall>u \<in> set (map p_current_url (progress_log (snd (crawl w c0)))
                        @ url_queue (snd (crawl w c0))). CHR ''#'' \<notin> set u)))
   \<and> (IndustrialCrawler_init w2 url2 limit2 d2 cb = Inr i0 \<longrightarrow>
      distinct (fetched_urls (ic_trace (snd (ic_crawl_loop w2 i0))))
      \<and> set (fetched_urls (ic_trace (snd (ic_crawl_loop w2 i0))))
          \<subseteq> ic_visited_urls (snd (ic_crawl_loop w2 i0)))"
  using crawl_frontier [of w fs url limit d c0] crawl_fragment_free [of w fs url limit d c0]
    ic_crawl_loop_fetch_once [OF ic_init_fetch_once, of w2 url2 limit2 d2 cb i0 w2]
  by (simp add: frontier_ok_def ic_fetch_once_def fragment_free_def)

theorem no_url_processed_twice_witness:
  "CHR ''#'' \<notin> set ''https://example.test/''
   \<and> distinct (map p_current_url (progress_log (snd (crawl example_world example_crawler)))
             @ url_queue (snd (crawl example_world example_crawler)))
   \<and> distinct (fetched_urls (ic_trace (snd (ic_crawl_loop example_world example_industrial_crawler))))"
  using no_url_processed_twice [of example_world "{}" "''https://example.test/''" 2 "3 / 2"
      example_crawler example_world "''https://example.test/''" 1 "1 / 2" False
      example_industrial_crawler]
    example_crawler_init example_industrial_crawler_init
  by simp

text \<open>
  Claim C2 as stated fails. \<open>IndustrialCrawler.__init__\<close> queues the seed without
  marking it visited, and after the seed page, which links twice to \<open>/a\<close>, the queue
  holds \<open>/a\<close> at two positions, unmarked. \<open>PoliteCrawler\<close> stores the seed with its
  fragment: for the seed \<open>https://example.test/#top\<close> and a page that links to
  \<open>https://example.test/#intro\<close>, the run processes \<open>https://example.test/#top\<close> and then
  \<open>https://example.test/\<close>, the same URL once the fragment is stripped.
\<close>

lemma crawl_fragment_seed:
  "(case crawl fragment_world (example_crawler\<lparr>start_url := ''https://example.test/#top''\<rparr>) of
      (r, c) \<Rightarrow> map p_current_url (progress_log c)
                 = [''https://example.test/#top'', ''https://example.test/''])"
  by (simp add: eval_defs fragment_world_def example_world_def example_crawler_def example_page_def
        example_soup_def crawl_loop.simps)

theorem url_processed_twice_counterexample:
  "IndustrialCrawler_init twice_linked_world ''https://example.test/'' 1 (1 / 2) False
     = Inr example_industrial_crawler
   \<and> ic_url_queue example_industrial_crawler = [''https://example.test/'']
   \<and> ''https://example.test/'' \<notin> ic_visited_urls example_industrial_crawler
   \<and> ic_url_queue (snd (ic_crawl_loop twice_linked_world example_industrial_crawler))
       = [''https://example.test/a'', ''https://example.test/a'']
   \<and> ''https://example.test/a''
       \<notin> ic_visited_urls (snd (ic_crawl_loop twice_linked_world example_industrial_crawler))
   \<and> PoliteCrawler_init fragment_world {} ''https://example.test/#top'' 2 (3 / 2)
       = Inr (example_crawler\<lparr>start_url := ''https://example.test/#top''\<rparr>)
   \<and> map p_current_url (progress_log (snd (crawl fragment_world
         (example_crawler\<lparr>start_url := ''https://example.test/#top''\<rparr>))))
       = [''https://example.test/#top'', ''https://example.test/'']
   \<and> split_head CHR ''#'' ''https://example.test/#top'' = ''https://example.test/''"
proof -
  have industrial: "IndustrialCrawler_init twice_linked_world ''https://example.test/'' 1 (1 / 2) False
     = Inr example_industrial_crawler
   \<and> ic_url_queue example_industrial_crawler = [''https://example.test/'']
   \<and> ''https://example.test/'' \<notin> ic_visited_urls example_industrial_crawler
   \<and> ic_url_queue (snd (ic_crawl_loop twice_linked_world example_industrial_crawler))
       = [''https://example.test/a'', ''https://example.test/a'']
   \<and> ''https://example.test/a''
       \<notin> ic_visited_urls (snd (ic_crawl_loop twice_linked_world example_industrial_crawler))"
    by (simp add: IndustrialCrawler_init_def example_industrial_crawler_def twice_linked_world_def
          example_world_def example_page_def example_soup_def ic_crawl_loop.simps ic_visit_def
          ic_try_page_def raise_for_status_def startswith_def Let_def)
  have init: "PoliteCrawler_init fragment_world {} ''https://example.test/#top'' 2 (3 / 2)
       = Inr (example_crawler\<lparr>start_url := ''https://example.test/#top''\<rparr>)"
    by (simp add: PoliteCrawler_init_def fragment_world_def example_world_def example_crawler_def
          startswith_def)
  have run: "map p_current_url (progress_log (snd (crawl fragment_world
         (example_crawler\<lparr>start_url := ''https://example.test/#top''\<rparr>))))
       = [''https://example.test/#top'', ''https://example.test/'']"
    using crawl_fragment_seed by (simp split: prod.splits)
  have strip: "split_head CHR ''#'' ''https://example.test/#top'' = ''https://example.test/''"
    by (simp add: split_head_def)
  from industrial init run strip show ?thesis
    by blast
qed

section \<open>What the page counter counts\<close>

lemma download_with_retry_all_fail:
  assumes "\<forall>i<3. attempt_fails w (length (trace c) + 2 * i) url"
  shows "fst (download_with_retry w url stream c) = Inr None"
    and "\<exists>m. errors (stats (snd (download_with_retry w url stream c)))
              = errors (stats c) @ [\<lparr>e_url = url, e_error = m\<rparr>]"
proof -
  let ?res = "download_attempts w url stream 0 c"
  have "retry_outcome w url stream 3 c ?res"
    using download_attempts_outcome [of 0 w url stream c] by (simp add: MAX_RETRIES_def)
  then obtain k where k: "1 \<le> k" "k \<le> 3"
    and out: "(case fst ?res of
             Inr None \<Rightarrow>
               k = 3 \<and> attempt_fails w (length (trace c) + 2 * (k - 1)) url
               \<and> (\<exists>m. errors (stats (snd ?res)) = errors (stats c) @ [\<lparr>e_url = url, e_error = m\<rparr>])
           | Inr (Some response) \<Rightarrow>
               http_get w (length (trace c) + 2 * (k - 1)) url = Inr response
               \<and> \<not> (400 \<le> status_code response \<and> status_code response < 600)
               \<and> errors (stats (snd ?res)) = errors (stats c)
           | Inl e \<Rightarrow>
               http_get w (length (trace c) + 2 * (k - 1)) url = Inl e
               \<and> (\<forall>m. e \<noteq> RequestException m)
               \<and> errors (stats (snd ?res)) = errors (stats c))"
    unfolding retry_outcome_def by blast
  from k have "k - 1 < 3" by simp
  with assms have f: "attempt_fails w (length (trace c) + 2 * (k - 1)) url"
    by blast
  from out f have r: "fst ?res = Inr None"
    by (cases "fst ?res") (auto simp: attempt_fails_def split: option.splits exn.splits)
  then show "fst (download_with_retry w url stream c) = Inr None"
    by (simp add: download_with_retry_def)
  from out r show "\<exists>m. errors (stats (snd (download_with_retry w url stream c)))
              = errors (stats c) @ [\<lparr>e_url = url, e_error = m\<rparr>]"
    by (simp add: download_with_retry_def)
qed

lemma download_attempts_results:
  "results (snd (download_attempts w url stream attempt c)) = results c"
proof (induction w url stream attempt c rule: download_attempts.induct)
  case (1 w url stream attempt c)
  then show ?case
    by (subst download_attempts.simps)
       (auto simp: session_get_def log_event_def record_error_def
             split: prod.splits sum.splits exn.splits)
qed

lemma process_page_disallowed: "\<not> can_fetch c url \<Longrightarrow> process_page w url c = (Inr [], c)"
  by (simp add: process_page_def)

lemma process_page_all_fail:
  assumes "can_fetch c url" and "\<forall>i<3. attempt_fails w (length (trace c) + 2 * i) url"
  shows "fst (process_page w url c) = Inr []
    \<and> res_pages (results (snd (process_page w url c))) = res_pages (results c)
    \<and> length (errors (stats (snd (process_page w url c)))) = length (errors (stats c)) + 1"
proof -
  obtain r c1 where d: "download_with_retry w url False c = (r, c1)"
    by (cases "download_with_retry w url False c")
  from download_with_retry_all_fail [OF assms(2), of False] d
  have r: "r = Inr None" and e: "\<exists>m. errors (stats c1) = errors (stats c) @ [\<lparr>e_url = url, e_error = m\<rparr>]"
    by simp_all
  have "results c1 = results c"
    using download_attempts_results [of w url False 0 c] d by (simp add: download_with_retry_def)
  with assms(1) d r e show ?thesis
    by (auto simp: process_page_def)
qed

lemma crawl_loop_counts:
  "pages_crawled (stats (snd (crawl_loop w c))) - pages_crawled (stats c)
     = int (length (progress_log (snd (crawl_loop w c)))) - int (length (progress_log c))"
proof (induction c rule: crawl_loop_induct [where w = w])
  case (stop c)
  then show ?case by (simp add: crawl_loop_stop)
next
  case (sleep_raises c)
  then show ?case
    by (simp add: crawl_loop_sleep_raises)
next
  case (abort c e c2)
  have "crawl_loop w c = (Inl e, c2)"
    by (simp add: crawl_loop_step [OF abort(1,2,3)] abort(4))
  with process_page_fields [OF abort(4)] show ?case
    by simp
next
  case (continue c found_links c2)
  have "crawl_loop w c = crawl_loop w (finish_page (hd (url_queue c)) found_links c2)"
    by (simp add: crawl_loop_step [OF continue(1,2,3)] continue(4))
  with process_page_fields [OF continue(4)] continue(5) show ?case
    by simp
qed

text \<open>
  Claim C6, amended. The page counter is incremented once for every dequeued URL whose
  \<open>process_page\<close> call returns, whatever it returns: an iteration of the loop whose
  \<open>process_page\<close> returned continues with the counter one higher (an iteration after
  the first whose \<open>time.sleep\<close> raised, the delay being negative, dequeues nothing). \<open>process_page\<close> returns
  the empty list, without any request and without an error record, for a URL that
  robots.txt disallows; it returns the empty list, with one error record and no page
  record, for a URL whose three attempts fail. So over a whole loop the counter grows
  by the number of progress snapshots, one per iteration that completed.
\<close>

theorem pages_crawled_counts_every_dequeued_url:
  "(url_queue c \<noteq> [] \<and> pages_crawled (stats c) < max_pages c
      \<and> process_page w (hd (url_queue c)) (dequeue c) = (Inr links, c2)
    \<longrightarrow> crawl_loop w c =
          (if 0 < pages_crawled (stats c) \<and> delay c < 0
           then (Inl (ValueError ''sleep length must be non-negative''), c)
           else crawl_loop w (finish_page (hd (url_queue c)) links c2))
        \<and> pages_crawled (stats (finish_page (hd (url_queue c)) links c2))
            = pages_crawled (stats c) + 1)
   \<and> (\<not> can_fetch ca url \<longrightarrow> process_page w url ca = (Inr [], ca))
   \<and> (can_fetch cb url2 \<and> (\<forall>i<3. attempt_fails w2 (length (trace cb) + 2 * i) url2)
    \<longrightarrow> fst (process_page w2 url2 cb) = Inr []
        \<and> res_pages (results (snd (process_page w2 url2 cb))) = res_pages (results cb)
        \<and> length (errors (stats (snd (process_page w2 url2 cb)))) = length (errors (stats cb)) + 1)
   \<and> pages_crawled (stats (snd (crawl_loop w c))) - pages_crawled (stats c)
       = int (length (progress_log (snd (crawl_loop w c)))) - int (length (progress_log c))"
proof (intro conjI impI)
  assume a: "url_queue c \<noteq> [] \<and> pages_crawled (stats c) < max_pages c
      \<and> process_page w (hd (url_queue c)) (dequeue c) = (Inr links, c2)"
  then show "crawl_loop w c =
      (if 0 < pages_crawled (stats c) \<and> delay c < 0
       then (Inl (ValueError ''sleep length must be non-negative''), c)
       else crawl_loop w (finish_page (hd (url_queue c)) links c2))"
    by (simp add: crawl_loop_step crawl_loop_sleep_raises)
  from a process_page_fields(2) [of w "hd (url_queue c)" "dequeue c" "Inr links" c2]
  show "pages_crawled (stats (finish_page (hd (url_queue c)) links c2)) = pages_crawled (stats c) + 1"
    by simp
next
  assume "\<not> can_fetch ca url"
  then show "process_page w url ca = (Inr [], ca)"
    by (rule process_page_disallowed)
next
  assume a: "can_fetch cb url2 \<and> (\<forall>i<3. attempt_fails w2 (length (trace cb) + 2 * i) url2)"
  with process_page_all_fail [of cb url2 w2]
  show "fst (process_page w2 url2 cb) = Inr []"
    "res_pages (results (snd (process_page w2 url2 cb))) = res_pages (results cb)"
    "length (errors (stats (snd (process_page w2 url2 cb)))) = length (errors (stats cb)) + 1"
    by simp_all
next
  show "pages_crawled (stats (snd (crawl_loop w c))) - pages_crawled (stats c)
       = int (length (progress_log (snd (crawl_loop w c)))) - int (length (progress_log c))"
    by (rule crawl_loop_counts)
qed

theorem pages_crawled_counts_every_dequeued_url_witness:
  "crawl_loop example_world never_read_crawler
     = crawl_loop example_world
         (finish_page ''https://example.test/'' [] (dequeue never_read_crawler))
   \<and> pages_crawled (stats (finish_page ''https://example.test/'' [] (dequeue never_read_crawler)))
       = 1
   \<and> process_page example_world ''https://example.test/'' never_read_crawler
       = (Inr [], never_read_crawler)
   \<and> fst (process_page example_world ''https://example.test/missing'' allowed_crawler) = Inr []
   \<and> length (errors (stats (snd (process_page example_world ''https://example.test/missing''
         allowed_crawler)))) = 1"
proof -
  have no: "\<not> can_fetch never_read_crawler ''https://example.test/''"
    "\<not> can_fetch (dequeue never_read_crawler) ''https://example.test/''"
    by (simp_all add: can_fetch_def rfp_can_fetch_def never_read_crawler_def example_crawler_def
          RobotFileParser_init_def)
  have q: "url_queue never_read_crawler \<noteq> []" "hd (url_queue never_read_crawler) = ''https://example.test/''"
    "pages_crawled (stats never_read_crawler) = 0" "max_pages never_read_crawler = 2"
    by (simp_all add: never_read_crawler_def example_crawler_def CrawlerStats_init_def)
  have pp: "process_page example_world ''https://example.test/'' (dequeue never_read_crawler)
            = (Inr [], dequeue never_read_crawler)"
    using no(2) by (simp add: process_page_def)
  have yes: "can_fetch allowed_crawler ''https://example.test/missing''"
    by (simp add: can_fetch_def rfp_can_fetch_def allowed_crawler_def RobotFileParser_init_def)
  have fails: "\<forall>i<3. attempt_fails example_world (length (trace allowed_crawler) + 2 * i)
                 ''https://example.test/missing''"
    by (simp add: example_always_fails)
  have e0: "errors (stats allowed_crawler) = []"
    by (simp add: allowed_crawler_def example_crawler_def CrawlerStats_init_def)
  from pages_crawled_counts_every_dequeued_url [of never_read_crawler example_world "[]"
      "dequeue never_read_crawler" never_read_crawler "''https://example.test/''"
      allowed_crawler "''https://example.test/missing''" example_world]
    no(1) q pp yes fails e0
  show ?thesis
    by simp
qed

text \<open>
  Claim C6 as stated fails: when robots.txt answers 403 the seed is disallowed, nothing
  is requested, no page is recorded, and the run ends with \<open>pages_crawled = 1\<close>.
\<close>

theorem crawl_counts_disallowed_counterexample:
  "(case crawl forbidden_world example_crawler of
      (r, c) \<Rightarrow> r = Inr () \<and> pages_crawled (stats c) = 1 \<and> res_pages (results c) = []
        \<and> fetched_urls (trace c) = [] \<and> errors (stats c) = []
        \<and> map p_current_url (progress_log c) = [''https://example.test/''])"
  by (simp add: eval_defs forbidden_world_def example_world_def example_crawler_def crawl_loop.simps)

section \<open>Errors that end the run\<close>

text \<open>
  Claim C5 on the code. When the disk is full, saving the seed page raises \<open>OSError\<close>
  outside any handler: \<open>crawl\<close> ends with that exception, no error is recorded, the end
  time is never set, the progress callback is never called. When the seed page holds an
  inline \<open>svg\<close>, \<open>self.folders["svg"]\<close> raises \<open>KeyError\<close> with the same effect.
\<close>

theorem crawl_stops_on_write_error:
  "(case crawl disk_full_world example_crawler of
      (r, c) \<Rightarrow> r = Inl (OSError ''[Errno 28] No space left on device'')
        \<and> pages_crawled (stats c) = 0 \<and> end_time (stats c) = None \<and> errors (stats c) = []
        \<and> progress_log c = [])
   \<and> (case crawl svg_world example_crawler of
      (r, c) \<Rightarrow> r = Inl (KeyError ''svg'')
        \<and> pages_crawled (stats c) = 0 \<and> end_time (stats c) = None \<and> errors (stats c) = []
        \<and> progress_log c = [])"
  by (simp add: eval_defs disk_full_world_def svg_world_def example_world_def example_crawler_def
        example_page_def example_soup_def crawl_loop.simps)

end
